theory Spec2Isabelle
  imports Complex_Main "HOL-Library.Multiset"
begin

section \<open>JavaScript numbers\<close>

text \<open>
  Every quantity of the dashboard is a JavaScript number, a binary64 value. A number is
  modelled as a finite real, one of the two infinities, or NaN; the sign of zero is not
  modelled. The comparisons, \<open>Math.max\<close>, \<open>Math.min\<close> and \<open>Number.isFinite\<close> treat the
  special values as the language does. A value that may be \<open>null\<close> is a \<open>jsnum option\<close>.

  Arithmetic comes twice. \<open>exact_add\<close>, \<open>exact_sub\<close>, \<open>exact_mul\<close> and \<open>exact_div\<close>
  compute on the reals. \<open>js_add\<close>, \<open>js_mul\<close> and \<open>js_div\<close> are the operations of the
  language: the exact result rounded to the nearest binary64 value, ties to even, and
  infinite when the rounded value does not fit. The sums of the tick aggregator and of the
  fee summary and the arithmetic of the estimate use the rounded operations: the code tests
  their results with \<open>Number.isFinite\<close>. The products of the seeding and of the reset, the
  0.01 of the earlier page and the pixel difference of the hit test use the exact
  operations: each is one operation whose result is stored or compared and that no guard
  reads, and the value here can differ from the code's in the last bit.
\<close>

datatype jsnum = Fin real | PInf | NInf | NaN

fun isFinite :: "jsnum \<Rightarrow> bool" where
  "isFinite (Fin _) = True"
| "isFinite _ = False"

text \<open>\<open>Number.isFinite\<close> of a value that may be \<open>null\<close>: \<open>null\<close> is not a number.\<close>

fun isFiniteNullable :: "jsnum option \<Rightarrow> bool" where
  "isFiniteNullable None = False"
| "isFiniteNullable (Some n) = isFinite n"

text \<open>\<open>Number(v)\<close> of a value that may be \<open>null\<close>: \<open>Number(null)\<close> is 0.\<close>

fun numberOfNullable :: "jsnum option \<Rightarrow> jsnum" where
  "numberOfNullable None = Fin 0"
| "numberOfNullable (Some n) = n"

fun js_le :: "jsnum \<Rightarrow> jsnum \<Rightarrow> bool" where
  "js_le NaN _ = False"
| "js_le _ NaN = False"
| "js_le (Fin a) (Fin b) = (a \<le> b)"
| "js_le NInf _ = True"
| "js_le _ PInf = True"
| "js_le _ _ = False"

fun js_lt :: "jsnum \<Rightarrow> jsnum \<Rightarrow> bool" where
  "js_lt NaN _ = False"
| "js_lt _ NaN = False"
| "js_lt (Fin a) (Fin b) = (a < b)"
| "js_lt PInf _ = False"
| "js_lt _ NInf = False"
| "js_lt _ _ = True"

definition js_ge :: "jsnum \<Rightarrow> jsnum \<Rightarrow> bool" where
  "js_ge a b = js_le b a"

definition js_gt :: "jsnum \<Rightarrow> jsnum \<Rightarrow> bool" where
  "js_gt a b = js_lt b a"

definition js_max :: "jsnum \<Rightarrow> jsnum \<Rightarrow> jsnum" where
  "js_max a b = (if a = NaN \<or> b = NaN then NaN else if js_le a b then b else a)"

definition js_min :: "jsnum \<Rightarrow> jsnum \<Rightarrow> jsnum" where
  "js_min a b = (if a = NaN \<or> b = NaN then NaN else if js_le a b then a else b)"

fun js_neg :: "jsnum \<Rightarrow> jsnum" where
  "js_neg (Fin a) = Fin (- a)"
| "js_neg PInf = NInf"
| "js_neg NInf = PInf"
| "js_neg NaN = NaN"

fun js_abs :: "jsnum \<Rightarrow> jsnum" where
  "js_abs (Fin a) = Fin \<bar>a\<bar>"
| "js_abs PInf = PInf"
| "js_abs NInf = PInf"
| "js_abs NaN = NaN"

fun exact_add :: "jsnum \<Rightarrow> jsnum \<Rightarrow> jsnum" where
  "exact_add NaN _ = NaN"
| "exact_add _ NaN = NaN"
| "exact_add (Fin a) (Fin b) = Fin (a + b)"
| "exact_add PInf NInf = NaN"
| "exact_add NInf PInf = NaN"
| "exact_add PInf _ = PInf"
| "exact_add _ PInf = PInf"
| "exact_add NInf _ = NInf"
| "exact_add _ NInf = NInf"

definition exact_sub :: "jsnum \<Rightarrow> jsnum \<Rightarrow> jsnum" where
  "exact_sub a b = exact_add a (js_neg b)"

text \<open>The sign of a number (0 for zero and for NaN), and the infinity of a given sign.\<close>

fun sign_of :: "jsnum \<Rightarrow> real" where
  "sign_of (Fin a) = sgn a"
| "sign_of PInf = 1"
| "sign_of NInf = - 1"
| "sign_of NaN = 0"

definition inf_of_sign :: "real \<Rightarrow> jsnum" where
  "inf_of_sign s = (if s = 0 then NaN else if 0 < s then PInf else NInf)"

fun exact_mul :: "jsnum \<Rightarrow> jsnum \<Rightarrow> jsnum" where
  "exact_mul NaN _ = NaN"
| "exact_mul _ NaN = NaN"
| "exact_mul (Fin a) (Fin b) = Fin (a * b)"
| "exact_mul a b = inf_of_sign (sign_of a * sign_of b)"

fun exact_div :: "jsnum \<Rightarrow> jsnum \<Rightarrow> jsnum" where
  "exact_div NaN _ = NaN"
| "exact_div _ NaN = NaN"
| "exact_div (Fin a) (Fin b) = (if b = 0 then inf_of_sign (sgn a) else Fin (a / b))"
| "exact_div (Fin a) _ = Fin 0"
| "exact_div a (Fin b) = inf_of_sign (sign_of a * (if b = 0 then 1 else sgn b))"
| "exact_div _ _ = NaN"

text \<open>
  Rounding to binary64. \<open>round_even\<close> rounds a real to the nearest integer, ties to the
  even one. A finite binary64 value is an integer of less than 54 bits times a power of two
  from \<open>2 powi - 1074\<close> to \<open>2 powi 971\<close>; \<open>round64 x\<close> rounds \<open>x\<close> at the unit of its last
  place, and a value that rounds to \<open>2 ^ 1024\<close> or beyond is infinite.
\<close>

definition round_even :: "real \<Rightarrow> int" where
  "round_even y =
     (let f = \<lfloor>y\<rfloor>; r = y - of_int f
      in if r < 1 / 2 then f else if 1 / 2 < r then f + 1 else if even f then f else f + 1)"

definition round64 :: "real \<Rightarrow> jsnum" where
  "round64 x =
     (if x = 0 then Fin 0
      else (let e = max (\<lfloor>log 2 \<bar>x\<bar>\<rfloor> - 52) (- 1074);
                r = of_int (round_even (x / 2 powi e)) * 2 powi e
            in if (2::real) ^ 1024 \<le> \<bar>r\<bar> then (if 0 < x then PInf else NInf) else Fin r))"

fun toBinary64 :: "jsnum \<Rightarrow> jsnum" where
  "toBinary64 (Fin r) = round64 r"
| "toBinary64 x = x"

definition js_add :: "jsnum \<Rightarrow> jsnum \<Rightarrow> jsnum" where
  "js_add a b = toBinary64 (exact_add a b)"

definition js_mul :: "jsnum \<Rightarrow> jsnum \<Rightarrow> jsnum" where
  "js_mul a b = toBinary64 (exact_mul a b)"

definition js_div :: "jsnum \<Rightarrow> jsnum \<Rightarrow> jsnum" where
  "js_div a b = toBinary64 (exact_div a b)"

text \<open>
  The left-to-right sum of a list of numbers from 0, as a \<open>reduce\<close> with \<open>+\<close> computes it,
  and the test \<open>Number.isFinite(x) ? x : null\<close>. \<open>big\<close> is the binary64 value \<open>2 ^ 1023\<close>,
  a little under 8.99e307; twice \<open>big\<close> is beyond the largest binary64 value.
\<close>

definition binary64Sum :: "real list \<Rightarrow> jsnum" where
  "binary64Sum xs = foldl js_add (Fin 0) (map Fin xs)"

definition finiteOrNull :: "jsnum \<Rightarrow> jsnum option" where
  "finiteOrNull x = (if isFinite x then Some x else None)"

definition big :: real where
  "big = 2 ^ 1023"

text \<open>\<open>const clamp = (v, lo, hi) => Math.max(lo, Math.min(hi, v))\<close>\<close>

definition clamp :: "jsnum \<Rightarrow> jsnum \<Rightarrow> jsnum \<Rightarrow> jsnum" where
  "clamp v lo hi = js_max lo (js_min hi v)"

section \<open>Liquidity in range\<close>

record tick =
  priceLowerUSD :: jsnum
  priceUpperUSD :: jsnum
  usdValue :: jsnum

definition normalizeRange :: "jsnum \<Rightarrow> jsnum \<Rightarrow> jsnum \<times> jsnum" where
  "normalizeRange a b = (js_min a b, js_max a b)"

definition tickOverlapsRange :: "tick \<Rightarrow> jsnum \<Rightarrow> jsnum \<Rightarrow> bool" where
  "tickOverlapsRange t rangeLo rangeHi =
     (let pl = priceLowerUSD t; pu = priceUpperUSD t in
      if \<not> isFinite pl \<or> \<not> isFinite pu then False
      else (let lo = js_min pl pu; hi = js_max pl pu in
            js_ge hi rangeLo \<and> js_le lo rangeHi))"

text \<open>The \<open>for (const t of ticksAll)\<close> loop of \<open>totalLiquidityInRange\<close>, with its accumulator \<open>sum\<close> (here \<open>acc\<close>).\<close>

fun sumTicks :: "tick list \<Rightarrow> jsnum \<Rightarrow> jsnum \<Rightarrow> jsnum \<Rightarrow> jsnum" where
  "sumTicks [] lo hi acc = acc"
| "sumTicks (t # ts) lo hi acc =
     (if \<not> tickOverlapsRange t lo hi then sumTicks ts lo hi acc
      else sumTicks ts lo hi (js_add acc (usdValue t)))"

text \<open>The memoised value \<open>totalLiquidityInRange\<close>; \<open>None\<close> is \<open>null\<close>.\<close>

definition totalLiquidityInRange :: "tick list \<Rightarrow> jsnum \<Rightarrow> jsnum \<Rightarrow> jsnum option" where
  "totalLiquidityInRange ticksAll lowerValue upperValue =
     (case normalizeRange lowerValue upperValue of (lo, hi) \<Rightarrow>
        if \<not> isFinite lo \<or> \<not> isFinite hi then None
        else if ticksAll = [] then None
        else (let acc = sumTicks ticksAll lo hi (Fin 0) in
              if isFinite acc then Some acc else None))"

text \<open>
  The values that the loop adds, in the order of the ticks. \<open>addsExactly xs acc\<close> says that
  no addition of the loop rounds: each rounded sum is the exact one. \<open>noRounding\<close> says it
  of the loop of \<open>totalLiquidityInRange\<close> on a tick sequence and a pair of bounds.
\<close>

definition includedValues :: "tick list \<Rightarrow> jsnum \<Rightarrow> jsnum \<Rightarrow> jsnum list" where
  "includedValues ticks lo hi = map usdValue (filter (\<lambda>t. tickOverlapsRange t lo hi) ticks)"

fun addsExactly :: "jsnum list \<Rightarrow> jsnum \<Rightarrow> bool" where
  "addsExactly [] acc = True"
| "addsExactly (x # xs) acc = (js_add acc x = exact_add acc x \<and> addsExactly xs (js_add acc x))"

definition noRounding :: "tick list \<Rightarrow> jsnum \<Rightarrow> jsnum \<Rightarrow> bool" where
  "noRounding ticks lower upper =
     (case normalizeRange lower upper of (lo, hi) \<Rightarrow> addsExactly (includedValues ticks lo hi) (Fin 0))"

section \<open>Fee summary\<close>

text \<open>
  A point of \<open>dailyAll\<close> as the loader builds it (its label is left out): \<open>feesUSD\<close> is
  \<open>null\<close> when the source's field was not finite. A point of \<open>fees\<close> inside
  \<open>feesSummary\<close> holds \<open>ts\<close> and \<open>Number(feesUSD)\<close>.
\<close>

record dailyPoint =
  d_ts :: jsnum
  d_price :: jsnum
  d_feesUSD :: "jsnum option"

record feePoint =
  f_ts :: jsnum
  f_feesUSD :: jsnum

record feesSummaryResult =
  last1d :: "jsnum option"
  last7d :: "jsnum option"
  last30d :: "jsnum option"

text \<open>\<open>xs.slice(-n)\<close> for a positive \<open>n\<close>: the last \<open>n\<close> elements, or all of them when there are fewer.\<close>

definition sliceLast :: "nat \<Rightarrow> 'a list \<Rightarrow> 'a list" where
  "sliceLast n xs = drop (length xs - n) xs"

definition sumLastN :: "feePoint list \<Rightarrow> nat \<Rightarrow> jsnum option" where
  "sumLastN fees n =
     (let slice = sliceLast n fees;
          s = foldl (\<lambda>acc x. js_add acc (f_feesUSD x)) (Fin 0) slice
      in if isFinite s then Some s else None)"

definition feesSummary :: "dailyPoint list \<Rightarrow> feesSummaryResult" where
  "feesSummary dailyAll =
     (let fees = filter (\<lambda>d. isFinite (f_ts d) \<and> isFinite (f_feesUSD d))
                   (map (\<lambda>d. \<lparr>f_ts = d_ts d, f_feesUSD = numberOfNullable (d_feesUSD d)\<rparr>) dailyAll)
      in if fees = [] then \<lparr>last1d = None, last7d = None, last30d = None\<rparr>
         else \<lparr>last1d = Some (f_feesUSD (last fees)),
               last7d = sumLastN fees 7,
               last30d = sumLastN fees 30\<rparr>)"

text \<open>A fee record of the data model, as a point of \<open>dailyAll\<close>: timestamp, price, fees.\<close>

definition feeRecord :: "real \<times> real \<times> real \<Rightarrow> dailyPoint" where
  "feeRecord r = (case r of (t, p, f) \<Rightarrow> \<lparr>d_ts = Fin t, d_price = Fin p, d_feesUSD = Some (Fin f)\<rparr>)"

section \<open>Return estimate\<close>

text \<open>
  The three estimate fields are display strings. \<open>Dash\<close> is the placeholder string,
  \<open>IntText n\<close> the string \<open>Intl.NumberFormat\<close> makes of the finite number \<open>n\<close> with no
  fraction digits, \<open>Dollar s\<close> is \<open>s\<close> after a dollar sign and \<open>Percent s\<close> is \<open>s\<close> before a
  percent sign.
\<close>

datatype display = Dash | IntText jsnum | Dollar display | Percent display

definition fmtInt :: "jsnum \<Rightarrow> display" where
  "fmtInt n = (if isFinite n then IntText n else Dash)"

definition fmtUSD0 :: "jsnum \<Rightarrow> display" where
  "fmtUSD0 n = (if isFinite n then Dollar (fmtInt n) else Dash)"

record estimates =
  calcRequested :: bool
  estFeesWeekly :: display
  estFeesDaily :: display
  estApr :: display

definition unavailable :: estimates where
  "unavailable = \<lparr>calcRequested = True, estFeesWeekly = Dash, estFeesDaily = Dash, estApr = Dash\<rparr>"

text \<open>
  \<open>handleCalculate\<close>, as a function of the number parsed from the deposit field, of
  \<open>totalLiquidityInRange\<close> and of \<open>feesSummary.last7d\<close>. A \<open>null\<close> operand of a comparison
  or of a division is converted with \<open>Number\<close>, as the language does.
\<close>

definition handleCalculate :: "jsnum \<Rightarrow> jsnum option \<Rightarrow> jsnum option \<Rightarrow> estimates" where
  "handleCalculate deposit L fees7 =
     (if \<not> isFinite deposit \<or> js_le deposit (Fin 0) then unavailable
      else if \<not> isFiniteNullable L \<or> js_le (numberOfNullable L) (Fin 0)
              \<or> \<not> isFiniteNullable fees7 \<or> js_lt (numberOfNullable fees7) (Fin 0) then unavailable
      else (let weeklyEst = js_mul (js_div deposit (numberOfNullable L)) (numberOfNullable fees7);
                dailyEst = js_div weeklyEst (Fin 7);
                aprPct = js_mul (js_mul (js_div (numberOfNullable fees7) (numberOfNullable L)) (Fin 52)) (Fin 100)
            in \<lparr>calcRequested = True,
                estFeesWeekly = fmtUSD0 weeklyEst,
                estFeesDaily = fmtUSD0 dailyEst,
                estApr = (if isFinite aprPct then Percent (fmtInt aprPct) else Dash)\<rparr>))"

section \<open>Range bounds of the dashboard\<close>

text \<open>
  The dashboard keeps the two bounds twice. The component state holds \<open>upperValue\<close> and
  \<open>lowerValue\<close>. The chart holds \<open>$lines\<close>, an array of two line objects; an effect with
  the dependencies \<open>[upperValue, lowerValue]\<close> replaces the array by two fresh objects
  whenever one of the two values has changed. The plugin's \<open>$dragState.dragging\<close> is a
  reference to a line object, and a drag writes the object's \<open>value\<close>; the component
  state is written when the drag ends, through the object's \<open>onDragEnd\<close>.

  Line objects live in a store, \<open>objs\<close>, from addresses to objects; \<open>nextObj\<close> is the
  first free address, and a cell that is not allocated yet holds a placeholder that nothing
  refers to. The chart exists from the first render on. The colour of a line, the cursor
  read-out and the zoom of the chart are left out: no bound depends on them.
\<close>

datatype lineLabel = UpperBound | LowerBound

datatype setter = SetUpperValue | SetLowerValue

record line =
  label :: lineLabel
  lvalue :: jsnum
  onDragEnd :: setter

record pricePoint =
  p_ts :: jsnum
  p_price :: jsnum

record dashboard =
  upperValue :: jsnum
  lowerValue :: jsnum
  hourlyAll :: "pricePoint list"
  didInitBounds :: bool
  objs :: "nat \<Rightarrow> line"
  nextObj :: nat
  lines :: "nat list option"
  dragging :: "nat option"

datatype error = TypeError

text \<open>The body of the effect: \<open>chart.$lines = [{Upper Bound ...}, {Lower Bound ...}]\<close>.\<close>

definition chartLinesEffect :: "dashboard \<Rightarrow> dashboard" where
  "chartLinesEffect s =
     s\<lparr>objs := (objs s)
          (nextObj s := \<lparr>label = UpperBound, lvalue = upperValue s, onDragEnd = SetUpperValue\<rparr>,
           Suc (nextObj s) := \<lparr>label = LowerBound, lvalue = lowerValue s, onDragEnd = SetLowerValue\<rparr>),
       nextObj := Suc (Suc (nextObj s)),
       lines := Some [nextObj s, Suc (nextObj s)]\<rparr>"

text \<open>
  One render that commits new values of the two bounds. The effect runs only when a
  dependency has changed. The two setter calls of the loader and of the reset are one
  render.
\<close>

definition commitBounds :: "jsnum \<Rightarrow> jsnum \<Rightarrow> dashboard \<Rightarrow> dashboard" where
  "commitBounds up lo s =
     (if up = upperValue s \<and> lo = lowerValue s then s
      else chartLinesEffect (s\<lparr>upperValue := up, lowerValue := lo\<rparr>))"

definition setUpperValue :: "jsnum \<Rightarrow> dashboard \<Rightarrow> dashboard" where
  "setUpperValue v s = commitBounds v (lowerValue s) s"

definition setLowerValue :: "jsnum \<Rightarrow> dashboard \<Rightarrow> dashboard" where
  "setLowerValue v s = commitBounds (upperValue s) v s"

fun callSetter :: "setter \<Rightarrow> jsnum \<Rightarrow> dashboard \<Rightarrow> dashboard" where
  "callSetter SetUpperValue v s = setUpperValue v s"
| "callSetter SetLowerValue v s = setLowerValue v s"

text \<open>The dashboard after its first render and the first run of the effect.\<close>

definition mount :: dashboard where
  "mount = chartLinesEffect
     \<lparr>upperValue = Fin 1000, lowerValue = Fin (- 1000), hourlyAll = [], didInitBounds = False,
      objs = (\<lambda>_. \<lparr>label = UpperBound, lvalue = NaN, onDragEnd = SetUpperValue\<rparr>),
      nextObj = 0, lines = None, dragging = None\<rparr>"

subsection \<open>Loading the hourly prices\<close>

text \<open>
  A raw point of \<open>hourly.json\<close>: the result of \<open>extractTs\<close> and the three fields that
  \<open>extractPrice\<close> reads, each after \<open>Number\<close>.
\<close>

record rawPoint =
  r_ts :: jsnum
  r_token0Price :: jsnum
  r_price :: jsnum
  r_token1Price :: jsnum

definition extractPrice :: "rawPoint \<Rightarrow> jsnum" where
  "extractPrice d =
     (if isFinite (r_token0Price d) then r_token0Price d
      else if isFinite (r_price d) then r_price d
      else if isFinite (r_token1Price d) \<and> r_token1Price d \<noteq> Fin 0
           then js_div (Fin 1) (r_token1Price d)
      else NaN)"

text \<open>
  The loader of the hourly prices from the sorted array on: the points with a finite
  timestamp and price are kept, and the first load that keeps a point seeds the bounds at
  95% and 105% of the last price. An empty array is an error that leaves the state as it is.
\<close>

definition mapPoints :: "rawPoint list \<Rightarrow> pricePoint list" where
  "mapPoints sortedArr =
     filter (\<lambda>p. isFinite (p_ts p) \<and> isFinite (p_price p))
       (map (\<lambda>d. \<lparr>p_ts = r_ts d, p_price = extractPrice d\<rparr>) sortedArr)"

definition loadHourly :: "rawPoint list \<Rightarrow> dashboard \<Rightarrow> dashboard" where
  "loadHourly sortedArr s =
     (if sortedArr = [] then s
      else (let mapped = mapPoints sortedArr;
                s1 = s\<lparr>hourlyAll := mapped\<rparr>
            in if \<not> didInitBounds s \<and> mapped \<noteq> []
               then (let lastPrice = p_price (last mapped)
                     in commitBounds (exact_mul lastPrice (Fin 1.05)) (exact_mul lastPrice (Fin 0.95))
                          (s1\<lparr>didInitBounds := True\<rparr>))
               else s1))"

subsection \<open>Typed bounds and reset\<close>

definition currentPrice :: "dashboard \<Rightarrow> jsnum option" where
  "currentPrice s = (if hourlyAll s = [] then None else Some (p_price (last (hourlyAll s))))"

text \<open>\<open>applyUpper\<close> and \<open>applyLower\<close>, as functions of the number parsed from the text field.\<close>

definition applyUpper :: "jsnum \<Rightarrow> dashboard \<Rightarrow> dashboard" where
  "applyUpper n s = (if \<not> isFinite n then s else setUpperValue (js_max n (lowerValue s)) s)"

definition applyLower :: "jsnum \<Rightarrow> dashboard \<Rightarrow> dashboard" where
  "applyLower n s = (if \<not> isFinite n then s else setLowerValue (js_min n (upperValue s)) s)"

definition handleReset :: "dashboard \<Rightarrow> dashboard" where
  "handleReset s =
     (if \<not> isFiniteNullable (currentPrice s) then s
      else (let p = numberOfNullable (currentPrice s)
            in commitBounds (exact_mul p (Fin 1.05)) (exact_mul p (Fin 0.95)) s))"

subsection \<open>The plugin of the dashboard: pointer events\<close>

datatype eventType = MouseDown | MouseMove | MouseUp | MouseOut

record mouseEvent =
  etype :: eventType
  ex :: jsnum
  ey :: jsnum

text \<open>The y scale of the chart, as far as the plugin uses it, and the chart area.\<close>

record scale =
  getValueForPixel :: "jsnum \<Rightarrow> jsnum"
  getPixelForValue :: "jsnum \<Rightarrow> jsnum"
  scale_min :: jsnum
  scale_max :: jsnum

record area =
  area_left :: jsnum
  area_right :: jsnum
  area_top :: jsnum
  area_bottom :: jsnum

definition inside :: "area \<Rightarrow> mouseEvent \<Rightarrow> bool" where
  "inside chartArea event =
     (js_ge (ex event) (area_left chartArea) \<and> js_le (ex event) (area_right chartArea)
      \<and> js_ge (ey event) (area_top chartArea) \<and> js_le (ey event) (area_bottom chartArea))"

text \<open>\<open>lines.find((l) => l.label === ...)\<close>; \<open>None\<close> is \<open>undefined\<close>.\<close>

definition findLine :: "dashboard \<Rightarrow> nat list \<Rightarrow> lineLabel \<Rightarrow> nat option" where
  "findLine s ls lab = find (\<lambda>a. label (objs s a) = lab) ls"

text \<open>The \<open>mousedown\<close> loop: the first line of the reversed array within 6 pixels of the pointer.\<close>

definition hitLine :: "dashboard \<Rightarrow> scale \<Rightarrow> mouseEvent \<Rightarrow> nat list \<Rightarrow> nat option" where
  "hitLine s yScale event ls =
     find (\<lambda>a. js_lt (js_abs (exact_sub (ey event) (getPixelForValue yScale (lvalue (objs s a))))) (Fin 6))
          (rev ls)"

definition pointerDown :: "scale \<Rightarrow> area \<Rightarrow> mouseEvent \<Rightarrow> nat list \<Rightarrow> dashboard \<Rightarrow> dashboard" where
  "pointerDown yScale chartArea event ls s =
     (if etype event = MouseDown \<and> inside chartArea event
      then (case hitLine s yScale event ls of
              None \<Rightarrow> s
            | Some a \<Rightarrow> s\<lparr>dragging := Some a\<rparr>)
      else s)"

text \<open>
  The \<open>mousemove\<close> block. The value under the pointer is first clamped to the axis range,
  where a bound of the axis that is not finite is replaced by the value itself.
\<close>

definition dragCandidate :: "scale \<Rightarrow> mouseEvent \<Rightarrow> jsnum" where
  "dragCandidate yScale event =
     (let newVal = getValueForPixel yScale (ey event);
          axisMin = (if isFinite (scale_min yScale) then scale_min yScale else newVal);
          axisMax = (if isFinite (scale_max yScale) then scale_max yScale else newVal)
      in clamp newVal axisMin axisMax)"

text \<open>
  Then the dragged object's \<open>value\<close> is set against the other line of \<open>$lines\<close>.
  Reading \<open>value\<close> of a line that \<open>find\<close> did not find throws a \<open>TypeError\<close>.
\<close>

definition pointerMove :: "scale \<Rightarrow> mouseEvent \<Rightarrow> nat list \<Rightarrow> dashboard \<Rightarrow> error + dashboard" where
  "pointerMove yScale event ls s =
     (case dragging s of
        None \<Rightarrow> Inr s
      | Some d \<Rightarrow>
          if etype event \<noteq> MouseMove then Inr s
          else (let newVal = dragCandidate yScale event;
                    upper = findLine s ls UpperBound;
                    lower = findLine s ls LowerBound
                in if label (objs s d) = UpperBound
                   then (case lower of
                           None \<Rightarrow> Inl TypeError
                         | Some l \<Rightarrow>
                             Inr (s\<lparr>objs := (objs s)(d := (objs s d)\<lparr>lvalue := js_max newVal (lvalue (objs s l))\<rparr>)\<rparr>))
                   else (case upper of
                           None \<Rightarrow> Inl TypeError
                         | Some u \<Rightarrow>
                             Inr (s\<lparr>objs := (objs s)(d := (objs s d)\<lparr>lvalue := js_min newVal (lvalue (objs s u))\<rparr>)\<rparr>))))"

text \<open>The \<open>mouseup\<close> / \<open>mouseout\<close> block: the dragged object's value goes to its setter.\<close>

definition pointerUp :: "mouseEvent \<Rightarrow> dashboard \<Rightarrow> dashboard" where
  "pointerUp event s =
     (if etype event = MouseUp \<or> etype event = MouseOut
      then (case dragging s of
              None \<Rightarrow> s
            | Some d \<Rightarrow> callSetter (onDragEnd (objs s d)) (lvalue (objs s d)) (s\<lparr>dragging := None\<rparr>))
      else s)"

definition afterEvent :: "scale \<Rightarrow> area \<Rightarrow> mouseEvent \<Rightarrow> dashboard \<Rightarrow> error + dashboard" where
  "afterEvent yScale chartArea event s =
     (case lines s of
        None \<Rightarrow> Inr s
      | Some ls \<Rightarrow>
          (case pointerMove yScale event ls (pointerDown yScale chartArea event ls s) of
             Inl e \<Rightarrow> Inl e
           | Inr s2 \<Rightarrow> Inr (pointerUp event s2)))"

subsection \<open>Sequences of operations\<close>

datatype action =
    Pointer scale area mouseEvent
  | HourlyLoaded "rawPoint list"
  | ApplyUpper jsnum
  | ApplyLower jsnum
  | Reset

fun step :: "action \<Rightarrow> dashboard \<Rightarrow> error + dashboard" where
  "step (Pointer yScale chartArea event) s = afterEvent yScale chartArea event s"
| "step (HourlyLoaded sortedArr) s = Inr (loadHourly sortedArr s)"
| "step (ApplyUpper n) s = Inr (applyUpper n s)"
| "step (ApplyLower n) s = Inr (applyLower n s)"
| "step Reset s = Inr (handleReset s)"

fun run :: "action list \<Rightarrow> dashboard \<Rightarrow> error + dashboard" where
  "run [] s = Inr s"
| "run (a # as) s = (case step a s of Inl e \<Rightarrow> Inl e | Inr s' \<Rightarrow> run as s')"

text \<open>The two bounds of the component state after a run: (lower, upper).\<close>

definition boundsAfter :: "error + dashboard \<Rightarrow> (jsnum \<times> jsnum) option" where
  "boundsAfter r = (case r of Inl e \<Rightarrow> None | Inr s \<Rightarrow> Some (lowerValue s, upperValue s))"

subsection \<open>Predicates on states and runs\<close>

text \<open>
  These are not functions of the dashboard; they state properties of its states.
  \<open>boundsInOrder\<close>: the component's lower value is at most its upper value.
  \<open>linesInOrder\<close>: \<open>$lines\<close> holds an upper and a lower line object, in this order, each
  with its own setter, the lower line's value at most the upper line's, and a line that is
  not being dragged carries the component's value; the dragged line, if any, is one of the
  two. \<open>pricesNonNegative\<close>: every loaded hourly price is finite and not negative.
\<close>

definition boundsInOrder :: "dashboard \<Rightarrow> bool" where
  "boundsInOrder s = js_le (lowerValue s) (upperValue s)"

definition pairInOrder :: "dashboard \<Rightarrow> nat \<Rightarrow> nat \<Rightarrow> bool" where
  "pairInOrder s u l =
     (u \<noteq> l
      \<and> label (objs s u) = UpperBound \<and> onDragEnd (objs s u) = SetUpperValue
      \<and> label (objs s l) = LowerBound \<and> onDragEnd (objs s l) = SetLowerValue
      \<and> js_le (lvalue (objs s l)) (lvalue (objs s u))
      \<and> (case dragging s of
            None \<Rightarrow> lvalue (objs s u) = upperValue s \<and> lvalue (objs s l) = lowerValue s
          | Some d \<Rightarrow> (d = u \<and> lvalue (objs s l) = lowerValue s)
                      \<or> (d = l \<and> lvalue (objs s u) = upperValue s)))"

definition linesInOrder :: "dashboard \<Rightarrow> bool" where
  "linesInOrder s = (case lines s of Some [u, l] \<Rightarrow> pairInOrder s u l | _ \<Rightarrow> False)"

definition pricesNonNegative :: "dashboard \<Rightarrow> bool" where
  "pricesNonNegative s = list_all (\<lambda>p. isFinite (p_price p) \<and> js_le (Fin 0) (p_price p)) (hourlyAll s)"

definition wellFormed :: "dashboard \<Rightarrow> bool" where
  "wellFormed s = (boundsInOrder s \<and> linesInOrder s \<and> pricesNonNegative s)"

text \<open>
  An action is \<open>undisturbed\<close> in a state when: a \<open>mousedown\<close> arrives only while no line is
  held; while a line is held, no price load, typed bound or reset arrives, and the value
  under the pointer is a number; and a loaded array holds no negative price.
\<close>

fun undisturbed :: "action \<Rightarrow> dashboard \<Rightarrow> bool" where
  "undisturbed (Pointer yScale chartArea event) s =
     (if etype event = MouseDown then dragging s = None
      else if etype event = MouseMove \<and> dragging s \<noteq> None then dragCandidate yScale event \<noteq> NaN
      else True)"
| "undisturbed (HourlyLoaded sortedArr) s =
     (dragging s = None
      \<and> list_all (\<lambda>d. if isFinite (extractPrice d) then js_le (Fin 0) (extractPrice d) else True) sortedArr)"
| "undisturbed (ApplyUpper n) s = (dragging s = None)"
| "undisturbed (ApplyLower n) s = (dragging s = None)"
| "undisturbed Reset s = (dragging s = None)"

fun undisturbedRun :: "action list \<Rightarrow> dashboard \<Rightarrow> bool" where
  "undisturbedRun [] s = True"
| "undisturbedRun (a # as) s =
     (undisturbed a s \<and> (case step a s of Inl e \<Rightarrow> True | Inr s' \<Rightarrow> undisturbedRun as s'))"

text \<open>
  A linear vertical axis as the chart library lays it out: the value \<open>mn\<close> at the pixel
  \<open>bt\<close> (the bottom), the value \<open>mx\<close> at the pixel \<open>tp\<close> (the top).
\<close>

fun pixelOf :: "real \<Rightarrow> real \<Rightarrow> real \<Rightarrow> real \<Rightarrow> jsnum \<Rightarrow> jsnum" where
  "pixelOf mn mx tp bt (Fin v) = Fin (bt - (v - mn) / (mx - mn) * (bt - tp))"
| "pixelOf mn mx tp bt _ = NaN"

fun valueOf :: "real \<Rightarrow> real \<Rightarrow> real \<Rightarrow> real \<Rightarrow> jsnum \<Rightarrow> jsnum" where
  "valueOf mn mx tp bt (Fin y) = Fin (mn + (bt - y) / (bt - tp) * (mx - mn))"
| "valueOf mn mx tp bt _ = NaN"

definition linearScale :: "real \<Rightarrow> real \<Rightarrow> real \<Rightarrow> real \<Rightarrow> scale" where
  "linearScale mn mx tp bt =
     \<lparr>getValueForPixel = valueOf mn mx tp bt, getPixelForValue = pixelOf mn mx tp bt,
      scale_min = Fin mn, scale_max = Fin mx\<rparr>"

definition areaOf :: "real \<Rightarrow> real \<Rightarrow> real \<Rightarrow> real \<Rightarrow> area" where
  "areaOf l r t b = \<lparr>area_left = Fin l, area_right = Fin r, area_top = Fin t, area_bottom = Fin b\<rparr>"

section \<open>The earlier tracker page and its dragger plugin\<close>

text \<open>
  The earlier page keeps \<open>lowerPrice\<close> and \<open>upperPrice\<close> (\<open>null\<close> until the first data
  arrive); the module variables \<open>globalLowerPrice\<close> and \<open>globalUpperPrice\<close> are
  copies made at every render, so they are these two. The annotation plugin sets
  \<open>activeAnnotationElement\<close> to the line under the pointer. \<open>lowerLineY\<close> and
  \<open>upperLineY\<close> are the \<open>yMin = yMax\<close> of the two annotations.
\<close>

datatype annotationId = LowerLineId | UpperLineId

record tracker =
  activeAnnotationElement :: "annotationId option"
  isDraggingAnnotation :: bool
  lowerPrice :: "jsnum option"
  upperPrice :: "jsnum option"
  lowerLineY :: "jsnum option"
  upperLineY :: "jsnum option"

definition draggerAfterEvent :: "scale \<Rightarrow> mouseEvent option \<Rightarrow> tracker \<Rightarrow> tracker" where
  "draggerAfterEvent yScale args_event t =
     (case args_event of
        None \<Rightarrow> t
      | Some event \<Rightarrow>
          if etype event = MouseDown \<and> activeAnnotationElement t \<noteq> None
          then t\<lparr>isDraggingAnnotation := True\<rparr>
          else if etype event = MouseUp \<or> etype event = MouseOut
          then t\<lparr>isDraggingAnnotation := False\<rparr>
          else if etype event = MouseMove \<and> isDraggingAnnotation t
          then (case activeAnnotationElement t of
                  None \<Rightarrow> t
                | Some LowerLineId \<Rightarrow>
                    (let newPrice0 = getValueForPixel yScale (ey event);
                         newPrice = (case upperPrice t of
                                       None \<Rightarrow> newPrice0
                                     | Some g \<Rightarrow> if js_ge newPrice0 g then exact_sub g (Fin 0.01) else newPrice0)
                     in t\<lparr>lowerLineY := Some newPrice, lowerPrice := Some newPrice\<rparr>)
                | Some UpperLineId \<Rightarrow>
                    (let newPrice0 = getValueForPixel yScale (ey event);
                         newPrice = (case lowerPrice t of
                                       None \<Rightarrow> newPrice0
                                     | Some g \<Rightarrow> if js_le newPrice0 g then exact_add g (Fin 0.01) else newPrice0)
                     in t\<lparr>upperLineY := Some newPrice, upperPrice := Some newPrice\<rparr>))
          else t)"

section \<open>Facts about rounding\<close>

text \<open>
  The exponent of a number follows from the two powers of two around it, which gives
  \<open>round64\<close> at a concrete number. Every integer up to \<open>2 ^ 53\<close> in absolute value is a
  binary64 value.
\<close>

lemma floor_log2_eq:
  assumes "2 powi k \<le> \<bar>x\<bar>" "\<bar>x\<bar> < 2 powi (k + 1)"
  shows "\<lfloor>log 2 \<bar>x\<bar>\<rfloor> = k"
proof -
  have pos: "0 < \<bar>x\<bar>"
    using assms(1) by (smt (verit) zero_less_power_int)
  have a: "(2::real) powr (of_int k) = 2 powi k"
    by (rule powr_real_of_int') simp_all
  have b: "(2::real) powr (of_int (k + 1)) = 2 powi (k + 1)"
    by (rule powr_real_of_int') simp_all
  have "2 powr (of_int k) \<le> \<bar>x\<bar>" "\<bar>x\<bar> < 2 powr (of_int (k + 1))"
    unfolding a b using assms by simp_all
  then have "2 powr (of_int k) \<le> \<bar>x\<bar> \<and> \<bar>x\<bar> < 2 powr (of_int k + 1)"
    by simp
  then show ?thesis
    using floor_log_eq_powr_iff [OF pos, of 2 k] by simp
qed

lemma round64_between:
  assumes "2 powi k \<le> \<bar>x\<bar>" "\<bar>x\<bar> < 2 powi (k + 1)"
    and "e = max (k - 52) (- 1074)" "m = round_even (x / 2 powi e)"
  shows "round64 x = (if (2::real) ^ 1024 \<le> \<bar>of_int m * 2 powi e\<bar> then (if 0 < x then PInf else NInf)
                      else Fin (of_int m * 2 powi e))"
proof -
  have "x \<noteq> 0"
    using assms(1) by (smt (verit) zero_less_power_int)
  then show ?thesis
    unfolding round64_def floor_log2_eq [OF assms(1,2)] Let_def assms(3,4) by simp
qed

lemma round_even_of_int: "round_even (of_int j) = j"
  by (simp add: round_even_def)

lemma round64_int:
  assumes "\<bar>n\<bar> \<le> 2 ^ 53"
  shows "round64 (of_int n) = Fin (of_int n)"
proof (cases "n = 0")
  case True
  then show ?thesis by (simp add: round64_def)
next
  case False
  define x :: real where "x = of_int n"
  define k where "k = \<lfloor>log 2 \<bar>x\<bar>\<rfloor>"
  from False have "1 \<le> \<bar>n\<bar>" by arith
  then have "(1::real) \<le> of_int \<bar>n\<bar>" by linarith
  then have x1: "1 \<le> \<bar>x\<bar>" by (simp add: x_def)
  from assms have "(of_int \<bar>n\<bar> :: real) \<le> of_int (2 ^ 53)" by (rule of_int_le_iff [THEN iffD2])
  then have x53: "\<bar>x\<bar> \<le> 2 ^ 53" by (simp add: x_def)
  have pos: "0 < \<bar>x\<bar>" using x1 by linarith
  have pk: "(2::real) powr (of_int j) = 2 powi j" for j
    by (rule powr_real_of_int') simp_all
  have "2 powr (of_int k) \<le> \<bar>x\<bar> \<and> \<bar>x\<bar> < 2 powr (of_int (k + 1))"
    using floor_log_eq_powr_iff [OF pos, of 2 k] by (simp add: k_def)
  then have lo: "2 powi k \<le> \<bar>x\<bar>" and hi: "\<bar>x\<bar> < 2 powi (k + 1)"
    unfolding pk by simp_all
  have k0: "0 \<le> k"
  proof (rule ccontr)
    assume "\<not> 0 \<le> k"
    then have "k + 1 \<le> 0" by simp
    then have "(2::real) powi (k + 1) \<le> 2 powi 0"
      by (rule power_int_increasing) simp
    with hi x1 show False by simp
  qed
  have k53: "k \<le> 53"
  proof (rule ccontr)
    assume "\<not> k \<le> 53"
    then have "54 \<le> k" by simp
    then have "(2::real) powi 54 \<le> 2 powi k"
      by (rule power_int_increasing) simp
    with lo x53 show False by simp
  qed
  have "\<exists>j. x / 2 powi (k - 52) = of_int j"
  proof (cases "k \<le> 52")
    case True
    define d where "d = nat (52 - k)"
    have "k - 52 = - int d" using True by (simp add: d_def)
    then have "(2::real) powi (k - 52) = inverse (2 ^ d)"
      by (simp add: power_int_minus)
    then have "x / 2 powi (k - 52) = of_int (n * 2 ^ d)"
      by (simp add: x_def field_simps)
    then show ?thesis by blast
  next
    case False
    with k53 have k: "k = 53" by simp
    with lo have "2 ^ 53 \<le> \<bar>x\<bar>" by simp
    with x53 have "\<bar>x\<bar> = 2 ^ 53" by simp
    then have "\<bar>real_of_int n\<bar> = real_of_int (2 ^ 53)" by (simp add: x_def)
    then have "\<bar>n\<bar> = 2 ^ 53" by linarith
    then have "even n" by (metis dvd_abs_iff even_numeral even_power zero_less_numeral)
    then obtain j where "n = 2 * j" by (elim evenE)
    then have "x / 2 powi (k - 52) = of_int j"
      by (simp add: x_def k)
    then show ?thesis by blast
  qed
  then obtain j where j: "x / 2 powi (k - 52) = of_int j" by blast
  then have r: "of_int j * 2 powi (k - 52) = x"
    by (simp add: field_simps)
  have e: "k - 52 = max (k - 52) (- 1074)" using k0 by simp
  have m: "j = round_even (x / 2 powi (k - 52))"
    by (simp add: j round_even_of_int)
  have "\<bar>x\<bar> < 2 ^ 1024"
    using x53 by (rule le_less_trans) simp
  then show ?thesis
    using round64_between [OF lo hi e m] by (simp add: r x_def)
qed

lemma round64_numeral: "numeral w \<le> (2::int) ^ 53 \<Longrightarrow> round64 (numeral w) = Fin (numeral w)"
  using round64_int [of "numeral w"] by simp

lemma js_add_Fin: "js_add (Fin a) (Fin b) = round64 (a + b)"
  by (simp add: js_add_def)

lemma js_mul_Fin: "js_mul (Fin a) (Fin b) = round64 (a * b)"
  by (simp add: js_mul_def)

lemma js_div_Fin: "b \<noteq> 0 \<Longrightarrow> js_div (Fin a) (Fin b) = round64 (a / b)"
  by (simp add: js_div_def)

lemma round64_one: "round64 1 = Fin 1"
  using round64_int [of 1] by simp

lemma round64_nat:
  assumes "x \<in> \<nat>" "x \<le> 2 ^ 53"
  shows "round64 x = Fin x"
proof -
  from assms(1) obtain n :: nat where x: "x = of_nat n"
    by (auto simp: Nats_def)
  with assms(2) have "real n \<le> 2 ^ 53" by simp
  then have "n \<le> 2 ^ 53"
    by (metis of_nat_le_iff of_nat_numeral of_nat_power)
  then have "\<bar>int n\<bar> \<le> 2 ^ 53"
    by simp
  from round64_int [OF this] x show ?thesis
    by simp
qed

text \<open>Rounding at the numbers of the examples.\<close>

lemma add_big: "js_add (Fin 0) (Fin big) = Fin big"
  unfolding js_add_Fin big_def
  by (subst round64_between [where k = 1023 and e = 971 and m = "2 ^ 52"])
     (simp_all add: round_even_def)

lemma add_big_big: "js_add (Fin big) (Fin big) = PInf"
  unfolding js_add_Fin big_def
  by (subst round64_between [where k = 1024 and e = 972 and m = "2 ^ 52"])
     (simp_all add: round_even_def)

lemma div_big_quarter: "js_div (Fin big) (Fin (1 / 4)) = PInf"
  unfolding js_div_def exact_div.simps big_def
  apply simp
  by (subst round64_between [where k = 1025 and e = 973 and m = "2 ^ 52"])
     (simp_all add: round_even_def)

lemma round64_tie: "round64 9007199254740993 = Fin 9007199254740992"
  by (subst round64_between [where k = 53 and e = 1 and m = "2 ^ 52"])
     (simp_all add: round_even_def)

lemma round64_above: "round64 9007199254740994 = Fin 9007199254740994"
  by (subst round64_between [where k = 53 and e = 1 and m = "2 ^ 52 + 1"])
     (simp_all add: round_even_def)

lemma div_1000_10000: "js_div (Fin 1000) (Fin 10000) = Fin (3602879701896397 / 2 ^ 55)"
  unfolding js_div_def exact_div.simps
  apply (simp only: if_False numeral_eq_iff num.distinct zero_neq_numeral numeral_neq_zero toBinary64.simps)
  by (subst round64_between [where k = "- 4" and e = "- 56" and m = 7205759403792794])
     (simp_all add: round_even_def)

lemma mul_tenth_700: "js_mul (Fin (3602879701896397 / 2 ^ 55)) (Fin 700) = Fin 70"
  unfolding js_mul_Fin
  by (subst round64_between [where k = 6 and e = "- 46" and m = 4925812092436480])
     (simp_all add: round_even_def)

lemma div_70_7: "js_div (Fin 70) (Fin 7) = Fin 10"
  by (simp add: js_div_Fin round64_numeral)

lemma div_700_10000: "js_div (Fin 700) (Fin 10000) = Fin (1261007895663739 / 2 ^ 54)"
  unfolding js_div_def exact_div.simps
  apply (simp only: if_False numeral_eq_iff num.distinct zero_neq_numeral numeral_neq_zero toBinary64.simps)
  by (subst round64_between [where k = "- 4" and e = "- 56" and m = 5044031582654956])
     (simp_all add: round_even_def)

lemma mul_52: "js_mul (Fin (1261007895663739 / 2 ^ 54)) (Fin 52) = Fin (256142228806697 / 2 ^ 46)"
  unfolding js_mul_Fin
  by (subst round64_between [where k = 1 and e = "- 51" and m = 8196551321814304])
     (simp_all add: round_even_def)

lemma mul_100: "js_mul (Fin (256142228806697 / 2 ^ 46)) (Fin 100) = Fin (364 + 1 / 2 ^ 44)"
  unfolding js_mul_Fin
  by (subst round64_between [where k = 8 and e = "- 44" and m = 6403555720167425])
     (simp_all add: round_even_def)

section \<open>The tick aggregator\<close>

text \<open>
  C3. A tick with finite price fields overlaps a finite query interval [lower, upper]
  exactly when the smaller of its two prices is at most upper and the larger is at least
  lower; touching ends count. The summing loop adds the \<open>usdValue\<close> of a tick exactly
  when the tick overlaps. The tick [90, 110] overlaps [100, 200] and does not overlap
  [200, 300].
\<close>

theorem tickOverlapsRange_closed_interval:
  "tickOverlapsRange \<lparr>priceLowerUSD = Fin pl, priceUpperUSD = Fin pu, usdValue = v\<rparr> (Fin lower) (Fin upper)
     = (min pl pu \<le> upper \<and> lower \<le> max pl pu)
   \<and> sumTicks (\<lparr>priceLowerUSD = Fin pl, priceUpperUSD = Fin pu, usdValue = v\<rparr> # rest) (Fin lower) (Fin upper) acc
     = sumTicks rest (Fin lower) (Fin upper)
         (if min pl pu \<le> upper \<and> lower \<le> max pl pu then js_add acc v else acc)"
  by (auto simp: tickOverlapsRange_def js_min_def js_max_def js_ge_def Let_def)

theorem tickOverlapsRange_closed_interval_witness:
  "tickOverlapsRange \<lparr>priceLowerUSD = Fin 90, priceUpperUSD = Fin 110, usdValue = Fin 5\<rparr> (Fin 100) (Fin 200)
   \<and> \<not> tickOverlapsRange \<lparr>priceLowerUSD = Fin 90, priceUpperUSD = Fin 110, usdValue = Fin 5\<rparr> (Fin 200) (Fin 300)
   \<and> sumTicks [\<lparr>priceLowerUSD = Fin 90, priceUpperUSD = Fin 110, usdValue = Fin 5\<rparr>] (Fin 100) (Fin 200) (Fin 0) = Fin 5
   \<and> sumTicks [\<lparr>priceLowerUSD = Fin 90, priceUpperUSD = Fin 110, usdValue = Fin 5\<rparr>] (Fin 200) (Fin 300) (Fin 0) = Fin 0"
  using tickOverlapsRange_closed_interval [of 90 110 "Fin 5" 100 200 "[]" "Fin 0"]
        tickOverlapsRange_closed_interval [of 90 110 "Fin 5" 200 300 "[]" "Fin 0"]
  by (simp add: js_add_Fin round64_numeral)

lemma sumTicks_none_overlap:
  "\<forall>t \<in> set ticks. \<not> tickOverlapsRange t lo hi \<Longrightarrow> sumTicks ticks lo hi acc = acc"
  by (induction ticks arbitrary: acc) auto

lemma normalizeRange_ordered: "l \<le> u \<Longrightarrow> normalizeRange (Fin l) (Fin u) = (Fin l, Fin u)"
  by (simp add: normalizeRange_def js_min_def js_max_def)

text \<open>
  C2, as the claim states it, fails on the empty tick set: \<open>totalLiquidityInRange\<close>
  returns \<open>null\<close> before it sums when \<open>ticksAll\<close> is empty.
\<close>

theorem totalLiquidityInRange_empty_counterexample:
  "totalLiquidityInRange [] (Fin 100) (Fin 200) = None
   \<and> totalLiquidityInRange [] (Fin 100) (Fin 200) \<noteq> Some (Fin 0)"
  by (simp add: totalLiquidityInRange_def normalizeRange_def js_min_def js_max_def)

lemma js_add_not_finite: "\<not> isFinite a \<or> \<not> isFinite b \<Longrightarrow> \<not> isFinite (js_add a b)"
  by (cases a; cases b) (auto simp: js_add_def)

lemma sumTicks_not_finite_acc: "\<not> isFinite acc \<Longrightarrow> \<not> isFinite (sumTicks ticks lo hi acc)"
  by (induction ticks arbitrary: acc) (auto simp: js_add_not_finite)

lemma sumTicks_not_finite_value:
  "\<exists>t \<in> set ticks. tickOverlapsRange t lo hi \<and> \<not> isFinite (usdValue t) \<Longrightarrow>
     \<not> isFinite (sumTicks ticks lo hi acc)"
  by (induction ticks arbitrary: acc) (auto simp: js_add_not_finite sumTicks_not_finite_acc)

lemma round64_not_NaN: "round64 x \<noteq> NaN"
  by (simp add: round64_def Let_def)

lemma js_add_not_NaN: "acc \<noteq> NaN \<Longrightarrow> isFinite x \<Longrightarrow> js_add acc x \<noteq> NaN"
  by (cases acc; cases x) (simp_all add: js_add_def round64_not_NaN)

lemma sumTicks_not_NaN:
  "acc \<noteq> NaN \<Longrightarrow> \<forall>t \<in> set ticks. tickOverlapsRange t lo hi \<longrightarrow> isFinite (usdValue t) \<Longrightarrow>
     sumTicks ticks lo hi acc \<noteq> NaN"
  by (induction ticks arbitrary: acc) (auto simp: js_add_not_NaN)

lemma not_finite_cases: "\<not> isFinite x \<Longrightarrow> x \<noteq> NaN \<Longrightarrow> x = PInf \<or> x = NInf"
  by (cases x) simp_all

text \<open>
  C2, amended. For finite bounds lower \<open>\<le>\<close> upper: on the empty tick set the aggregate is
  \<open>null\<close>; on a tick set that is not empty and has no tick overlapping the interval it is
  the number 0; it is \<open>null\<close> exactly when the tick set is empty or the binary64 sum of
  the loop is not finite; the sum is not finite whenever an overlapping tick has a
  \<open>usdValue\<close> that is not finite; and when the tick set is not empty and every overlapping
  \<open>usdValue\<close> is finite, a \<open>null\<close> means that the sum has overflowed to an infinity. Two
  overlapping ticks of \<open>2 ^ 1023\<close> give \<open>null\<close>.
\<close>

theorem totalLiquidityInRange_zero_or_null:
  assumes "l \<le> u"
  shows "totalLiquidityInRange [] (Fin l) (Fin u) = None
    \<and> (ticks \<noteq> [] \<and> (\<forall>t \<in> set ticks. \<not> tickOverlapsRange t (Fin l) (Fin u))
         \<longrightarrow> totalLiquidityInRange ticks (Fin l) (Fin u) = Some (Fin 0))
    \<and> (totalLiquidityInRange ticks (Fin l) (Fin u) = None
         \<longleftrightarrow> ticks = [] \<or> \<not> isFinite (sumTicks ticks (Fin l) (Fin u) (Fin 0)))
    \<and> ((\<exists>t \<in> set ticks. tickOverlapsRange t (Fin l) (Fin u) \<and> \<not> isFinite (usdValue t))
         \<longrightarrow> totalLiquidityInRange ticks (Fin l) (Fin u) = None)
    \<and> (ticks \<noteq> [] \<and> (\<forall>t \<in> set ticks. tickOverlapsRange t (Fin l) (Fin u) \<longrightarrow> isFinite (usdValue t))
          \<and> totalLiquidityInRange ticks (Fin l) (Fin u) = None
         \<longrightarrow> sumTicks ticks (Fin l) (Fin u) (Fin 0) = PInf \<or> sumTicks ticks (Fin l) (Fin u) (Fin 0) = NInf)"
proof -
  have nf: "totalLiquidityInRange ticks (Fin l) (Fin u) = None"
    if "\<exists>t \<in> set ticks. tickOverlapsRange t (Fin l) (Fin u) \<and> \<not> isFinite (usdValue t)"
    using sumTicks_not_finite_value [OF that, of "Fin 0"] assms
    by (simp add: totalLiquidityInRange_def normalizeRange_ordered Let_def)
  have rest: "totalLiquidityInRange [] (Fin l) (Fin u) = None
    \<and> (ticks \<noteq> [] \<and> (\<forall>t \<in> set ticks. \<not> tickOverlapsRange t (Fin l) (Fin u))
         \<longrightarrow> totalLiquidityInRange ticks (Fin l) (Fin u) = Some (Fin 0))
    \<and> (totalLiquidityInRange ticks (Fin l) (Fin u) = None
         \<longleftrightarrow> ticks = [] \<or> \<not> isFinite (sumTicks ticks (Fin l) (Fin u) (Fin 0)))"
    using assms
    by (auto simp: totalLiquidityInRange_def normalizeRange_ordered Let_def sumTicks_none_overlap)
  from rest have a: "totalLiquidityInRange [] (Fin l) (Fin u) = None"
    and b: "ticks \<noteq> [] \<and> (\<forall>t \<in> set ticks. \<not> tickOverlapsRange t (Fin l) (Fin u))
         \<longrightarrow> totalLiquidityInRange ticks (Fin l) (Fin u) = Some (Fin 0)"
    and c: "totalLiquidityInRange ticks (Fin l) (Fin u) = None
         \<longleftrightarrow> ticks = [] \<or> \<not> isFinite (sumTicks ticks (Fin l) (Fin u) (Fin 0))"
    by simp_all
  from nf have d: "(\<exists>t \<in> set ticks. tickOverlapsRange t (Fin l) (Fin u) \<and> \<not> isFinite (usdValue t))
         \<longrightarrow> totalLiquidityInRange ticks (Fin l) (Fin u) = None"
    by (rule impI)
  have e: "ticks \<noteq> [] \<and> (\<forall>t \<in> set ticks. tickOverlapsRange t (Fin l) (Fin u) \<longrightarrow> isFinite (usdValue t))
          \<and> totalLiquidityInRange ticks (Fin l) (Fin u) = None
         \<longrightarrow> sumTicks ticks (Fin l) (Fin u) (Fin 0) = PInf \<or> sumTicks ticks (Fin l) (Fin u) (Fin 0) = NInf"
  proof (intro impI)
    assume h: "ticks \<noteq> [] \<and> (\<forall>t \<in> set ticks. tickOverlapsRange t (Fin l) (Fin u) \<longrightarrow> isFinite (usdValue t))
          \<and> totalLiquidityInRange ticks (Fin l) (Fin u) = None"
    with c have "\<not> isFinite (sumTicks ticks (Fin l) (Fin u) (Fin 0))"
      by simp
    moreover from h have "sumTicks ticks (Fin l) (Fin u) (Fin 0) \<noteq> NaN"
      by (intro sumTicks_not_NaN) simp_all
    ultimately show "sumTicks ticks (Fin l) (Fin u) (Fin 0) = PInf \<or> sumTicks ticks (Fin l) (Fin u) (Fin 0) = NInf"
      by (rule not_finite_cases)
  qed
  from a b c d e show ?thesis
    by (intro conjI)
qed

theorem totalLiquidityInRange_zero_or_null_witness:
  "(100::real) \<le> 200
   \<and> totalLiquidityInRange [] (Fin 200) (Fin 300) = None
   \<and> totalLiquidityInRange [\<lparr>priceLowerUSD = Fin 90, priceUpperUSD = Fin 110, usdValue = Fin 5\<rparr>]
        (Fin 200) (Fin 300) = Some (Fin 0)
   \<and> totalLiquidityInRange [\<lparr>priceLowerUSD = Fin 90, priceUpperUSD = Fin 110, usdValue = PInf\<rparr>]
        (Fin 100) (Fin 200) = None
   \<and> totalLiquidityInRange [\<lparr>priceLowerUSD = Fin 90, priceUpperUSD = Fin 110, usdValue = Fin big\<rparr>,
                            \<lparr>priceLowerUSD = Fin 90, priceUpperUSD = Fin 110, usdValue = Fin big\<rparr>]
        (Fin 100) (Fin 200) = None
   \<and> sumTicks [\<lparr>priceLowerUSD = Fin 90, priceUpperUSD = Fin 110, usdValue = Fin big\<rparr>,
               \<lparr>priceLowerUSD = Fin 90, priceUpperUSD = Fin 110, usdValue = Fin big\<rparr>]
        (Fin 100) (Fin 200) (Fin 0) = PInf"
proof -
  let ?t = "\<lparr>priceLowerUSD = Fin 90, priceUpperUSD = Fin 110, usdValue = Fin 5\<rparr>"
  let ?i = "\<lparr>priceLowerUSD = Fin 90, priceUpperUSD = Fin 110, usdValue = PInf\<rparr>"
  let ?b = "\<lparr>priceLowerUSD = Fin 90, priceUpperUSD = Fin 110, usdValue = Fin big\<rparr>"
  have h: "(200::real) \<le> 300" "(100::real) \<le> 200" by simp_all
  have no: "\<not> tickOverlapsRange ?t (Fin 200) (Fin 300)"
    by (simp add: tickOverlapsRange_def js_min_def js_max_def js_ge_def)
  have yes: "tickOverlapsRange ?i (Fin 100) (Fin 200)" "tickOverlapsRange ?b (Fin 100) (Fin 200)"
    by (simp_all add: tickOverlapsRange_def js_min_def js_max_def js_ge_def)
  have over: "sumTicks [?b, ?b] (Fin 100) (Fin 200) (Fin 0) = PInf"
    using yes(2) by (simp add: add_big add_big_big)
  show ?thesis
    using totalLiquidityInRange_zero_or_null [OF h(1), of "[?t]"]
          totalLiquidityInRange_zero_or_null [OF h(2), of "[?i]"]
          totalLiquidityInRange_zero_or_null [OF h(2), of "[?b, ?b]"] no yes over
    by simp
qed

text \<open>
  C8, as the claim states it, fails on binary64 sums: the ticks of value \<open>2 ^ 53\<close>, 1
  and 1, all overlapping [100, 200], add up to 9007199254740992 in this order and to
  9007199254740994 with the large value last.
\<close>

theorem totalLiquidityInRange_order_counterexample:
  "totalLiquidityInRange
     [\<lparr>priceLowerUSD = Fin 90, priceUpperUSD = Fin 110, usdValue = Fin 9007199254740992\<rparr>,
      \<lparr>priceLowerUSD = Fin 90, priceUpperUSD = Fin 110, usdValue = Fin 1\<rparr>,
      \<lparr>priceLowerUSD = Fin 90, priceUpperUSD = Fin 110, usdValue = Fin 1\<rparr>]
     (Fin 100) (Fin 200) = Some (Fin 9007199254740992)
   \<and> totalLiquidityInRange
     [\<lparr>priceLowerUSD = Fin 90, priceUpperUSD = Fin 110, usdValue = Fin 1\<rparr>,
      \<lparr>priceLowerUSD = Fin 90, priceUpperUSD = Fin 110, usdValue = Fin 1\<rparr>,
      \<lparr>priceLowerUSD = Fin 90, priceUpperUSD = Fin 110, usdValue = Fin 9007199254740992\<rparr>]
     (Fin 100) (Fin 200) = Some (Fin 9007199254740994)
   \<and> mset [\<lparr>priceLowerUSD = Fin 90, priceUpperUSD = Fin 110, usdValue = Fin 9007199254740992\<rparr>,
           \<lparr>priceLowerUSD = Fin 90, priceUpperUSD = Fin 110, usdValue = Fin 1\<rparr>,
           \<lparr>priceLowerUSD = Fin 90, priceUpperUSD = Fin 110, usdValue = Fin 1\<rparr>]
     = mset [\<lparr>priceLowerUSD = Fin 90, priceUpperUSD = Fin 110, usdValue = Fin 1\<rparr>,
             \<lparr>priceLowerUSD = Fin 90, priceUpperUSD = Fin 110, usdValue = Fin 1\<rparr>,
             \<lparr>priceLowerUSD = Fin 90, priceUpperUSD = Fin 110, usdValue = Fin 9007199254740992\<rparr>]"
  by (simp add: totalLiquidityInRange_def normalizeRange_def tickOverlapsRange_def
                js_min_def js_max_def js_ge_def js_add_Fin round64_numeral round64_one round64_tie round64_above)

lemma exact_add_right_commute: "exact_add (exact_add a b) c = exact_add (exact_add a c) b"
  by (cases a; cases b; cases c) auto

lemma sumTicks_foldl: "sumTicks ticks lo hi acc = foldl js_add acc (includedValues ticks lo hi)"
  by (induction ticks arbitrary: acc) (auto simp: includedValues_def)

lemma addsExactly_foldl: "addsExactly xs acc \<Longrightarrow> foldl js_add acc xs = foldl exact_add acc xs"
  by (induction xs arbitrary: acc) auto

lemma foldl_exact_add_mset:
  assumes "mset xs = mset ys"
  shows "foldl exact_add acc xs = foldl exact_add acc ys"
proof -
  have "fold (\<lambda>x a. exact_add a x) xs = fold (\<lambda>x a. exact_add a x) ys"
    by (rule fold_multiset_equiv [OF _ assms]) (auto simp: fun_eq_iff exact_add_right_commute)
  then show ?thesis
    by (simp add: foldl_conv_fold)
qed

lemma includedValues_mset:
  "mset ticks = mset ticks' \<Longrightarrow> mset (includedValues ticks lo hi) = mset (includedValues ticks' lo hi)"
  unfolding includedValues_def
  by (metis mset_filter mset_map)

text \<open>
  C8, amended. A permutation of the tick sequence leaves the multiset of the included ticks
  unchanged, and it leaves the aggregate unchanged when no addition of the loop rounds, in
  the one order and in the other. When additions round, the aggregate can depend on the
  order.
\<close>

theorem totalLiquidityInRange_order_when_exact:
  "(mset ticks = mset ticks' \<longrightarrow>
      mset (filter (\<lambda>t. tickOverlapsRange t lo hi) ticks)
        = mset (filter (\<lambda>t. tickOverlapsRange t lo hi) ticks'))
   \<and> (mset ticks = mset ticks' \<and> noRounding ticks lower upper \<and> noRounding ticks' lower upper \<longrightarrow>
        totalLiquidityInRange ticks lower upper = totalLiquidityInRange ticks' lower upper)"
proof -
  have incl: "mset (filter (\<lambda>t. tickOverlapsRange t lo hi) ticks)
        = mset (filter (\<lambda>t. tickOverlapsRange t lo hi) ticks')" if "mset ticks = mset ticks'"
    using that by (metis mset_filter)
  have agg: "totalLiquidityInRange ticks lower upper = totalLiquidityInRange ticks' lower upper"
    if m: "mset ticks = mset ticks'" and "noRounding ticks lower upper" "noRounding ticks' lower upper"
  proof -
    obtain a b where n: "normalizeRange lower upper = (a, b)"
      by (cases "normalizeRange lower upper")
    from that n have ex: "addsExactly (includedValues ticks a b) (Fin 0)"
      "addsExactly (includedValues ticks' a b) (Fin 0)"
      by (simp_all add: noRounding_def)
    have "sumTicks ticks a b (Fin 0) = foldl exact_add (Fin 0) (includedValues ticks a b)"
      by (simp add: sumTicks_foldl addsExactly_foldl [OF ex(1)])
    also have "\<dots> = foldl exact_add (Fin 0) (includedValues ticks' a b)"
      by (rule foldl_exact_add_mset [OF includedValues_mset [OF m]])
    also have "\<dots> = sumTicks ticks' a b (Fin 0)"
      by (simp add: sumTicks_foldl addsExactly_foldl [OF ex(2)])
    finally have s: "sumTicks ticks a b (Fin 0) = sumTicks ticks' a b (Fin 0)" .
    have e: "ticks = [] \<longleftrightarrow> ticks' = []"
      using m by (metis mset_zero_iff)
    show ?thesis
      by (simp add: totalLiquidityInRange_def n s e)
  qed
  from incl agg show ?thesis by blast
qed

theorem totalLiquidityInRange_order_when_exact_witness:
  "mset [\<lparr>priceLowerUSD = Fin 90, priceUpperUSD = Fin 110, usdValue = Fin 1\<rparr>,
         \<lparr>priceLowerUSD = Fin 120, priceUpperUSD = Fin 150, usdValue = Fin 2\<rparr>]
     = mset [\<lparr>priceLowerUSD = Fin 120, priceUpperUSD = Fin 150, usdValue = Fin 2\<rparr>,
             \<lparr>priceLowerUSD = Fin 90, priceUpperUSD = Fin 110, usdValue = Fin 1\<rparr>]
   \<and> noRounding [\<lparr>priceLowerUSD = Fin 90, priceUpperUSD = Fin 110, usdValue = Fin 1\<rparr>,
                 \<lparr>priceLowerUSD = Fin 120, priceUpperUSD = Fin 150, usdValue = Fin 2\<rparr>] (Fin 100) (Fin 200)
   \<and> noRounding [\<lparr>priceLowerUSD = Fin 120, priceUpperUSD = Fin 150, usdValue = Fin 2\<rparr>,
                 \<lparr>priceLowerUSD = Fin 90, priceUpperUSD = Fin 110, usdValue = Fin 1\<rparr>] (Fin 100) (Fin 200)
   \<and> totalLiquidityInRange [\<lparr>priceLowerUSD = Fin 90, priceUpperUSD = Fin 110, usdValue = Fin 1\<rparr>,
                            \<lparr>priceLowerUSD = Fin 120, priceUpperUSD = Fin 150, usdValue = Fin 2\<rparr>]
        (Fin 100) (Fin 200)
     = totalLiquidityInRange [\<lparr>priceLowerUSD = Fin 120, priceUpperUSD = Fin 150, usdValue = Fin 2\<rparr>,
                              \<lparr>priceLowerUSD = Fin 90, priceUpperUSD = Fin 110, usdValue = Fin 1\<rparr>]
        (Fin 100) (Fin 200)
   \<and> totalLiquidityInRange [\<lparr>priceLowerUSD = Fin 90, priceUpperUSD = Fin 110, usdValue = Fin 1\<rparr>,
                            \<lparr>priceLowerUSD = Fin 120, priceUpperUSD = Fin 150, usdValue = Fin 2\<rparr>]
        (Fin 100) (Fin 200) = Some (Fin 3)"
proof -
  let ?a = "\<lparr>priceLowerUSD = Fin 90, priceUpperUSD = Fin 110, usdValue = Fin 1\<rparr>"
  let ?b = "\<lparr>priceLowerUSD = Fin 120, priceUpperUSD = Fin 150, usdValue = Fin 2\<rparr>"
  have m: "mset [?a, ?b] = mset [?b, ?a]" by simp
  have n: "noRounding [?a, ?b] (Fin 100) (Fin 200)" "noRounding [?b, ?a] (Fin 100) (Fin 200)"
    by (simp_all add: noRounding_def normalizeRange_def includedValues_def tickOverlapsRange_def
                      js_min_def js_max_def js_ge_def js_add_Fin round64_numeral round64_one)
  have v: "totalLiquidityInRange [?a, ?b] (Fin 100) (Fin 200) = Some (Fin 3)"
    by (simp add: totalLiquidityInRange_def normalizeRange_def tickOverlapsRange_def
                  js_min_def js_max_def js_ge_def js_add_Fin round64_numeral round64_one)
  show ?thesis
    using totalLiquidityInRange_order_when_exact [of "[?a, ?b]" "[?b, ?a]" _ _ "Fin 100" "Fin 200"] m n v
    by simp
qed

section \<open>The return estimator\<close>

text \<open>
  C4, as the claim states it, fails twice. For a deposit of 1000, a liquidity of 10000 and
  fees of 700 the annual percentage that the code computes is 364.00000000000006, which is
  \<open>364 + 1 / 2 ^ 44\<close>, not 364 (the field shows it without fraction digits). For a
  deposit of \<open>2 ^ 1023\<close>, a liquidity of 0.25 and fees of 1 the preconditions hold and the
  weekly and daily fields are the placeholder: the quotient is infinite.
\<close>

theorem handleCalculate_example_counterexample:
  "estApr (handleCalculate (Fin 1000) (Some (Fin 10000)) (Some (Fin 700)))
     = Percent (IntText (Fin (364 + 1 / 2 ^ 44)))
   \<and> js_mul (js_mul (js_div (Fin 700) (Fin 10000)) (Fin 52)) (Fin 100) \<noteq> Fin 364
   \<and> estFeesWeekly (handleCalculate (Fin big) (Some (Fin (1 / 4))) (Some (Fin 1))) = Dash
   \<and> estFeesDaily (handleCalculate (Fin big) (Some (Fin (1 / 4))) (Some (Fin 1))) = Dash"
proof -
  have apr: "js_mul (js_mul (js_div (Fin 700) (Fin 10000)) (Fin 52)) (Fin 100) = Fin (364 + 1 / 2 ^ 44)"
    unfolding div_700_10000 mul_52 mul_100 ..
  have a: "estApr (handleCalculate (Fin 1000) (Some (Fin 10000)) (Some (Fin 700)))
     = Percent (IntText (Fin (364 + 1 / 2 ^ 44)))"
    unfolding handleCalculate_def Let_def numberOfNullable.simps apr
    by (simp add: fmtInt_def)
  have bigpos: "0 < big" by (simp add: big_def)
  have w: "js_mul (js_div (Fin big) (Fin (1 / 4))) (Fin 1) = PInf"
    unfolding div_big_quarter by (simp add: js_mul_def inf_of_sign_def)
  have d: "js_div PInf (Fin 7) = PInf"
    by (simp add: js_div_def inf_of_sign_def)
  have b: "estFeesWeekly (handleCalculate (Fin big) (Some (Fin (1 / 4))) (Some (Fin 1))) = Dash"
          "estFeesDaily (handleCalculate (Fin big) (Some (Fin (1 / 4))) (Some (Fin 1))) = Dash"
    unfolding handleCalculate_def Let_def numberOfNullable.simps w d
    using bigpos by (simp_all add: fmtUSD0_def)
  from a b apr show ?thesis by simp
qed

text \<open>
  C4, amended. When the deposit and the liquidity are finite and positive and the fees are
  finite and not negative, the weekly estimate is the binary64 product of the binary64
  quotient deposit / liquidity and the fees, the daily estimate is the binary64 quotient of
  the weekly estimate and 7, and the annual percentage is the binary64 quotient
  fees / liquidity times 52 and then times 100, each operation rounded, in this order; a
  field whose number is not finite shows the placeholder. For 1000, 10000 and 700 the
  numbers are 70, 10 and \<open>364 + 1 / 2 ^ 44\<close>.
\<close>

theorem handleCalculate_formulas:
  assumes "0 < deposit" and "0 < L" and "0 \<le> fees7"
  shows "handleCalculate (Fin deposit) (Some (Fin L)) (Some (Fin fees7)) =
           \<lparr>calcRequested = True,
            estFeesWeekly = fmtUSD0 (js_mul (js_div (Fin deposit) (Fin L)) (Fin fees7)),
            estFeesDaily = fmtUSD0 (js_div (js_mul (js_div (Fin deposit) (Fin L)) (Fin fees7)) (Fin 7)),
            estApr = (if isFinite (js_mul (js_mul (js_div (Fin fees7) (Fin L)) (Fin 52)) (Fin 100))
                      then Percent (fmtInt (js_mul (js_mul (js_div (Fin fees7) (Fin L)) (Fin 52)) (Fin 100)))
                      else Dash)\<rparr>
         \<and> js_div (Fin deposit) (Fin L) = round64 (deposit / L)
         \<and> js_div (Fin fees7) (Fin L) = round64 (fees7 / L)"
  using assms by (simp add: handleCalculate_def Let_def js_div_Fin)

theorem handleCalculate_formulas_witness:
  "handleCalculate (Fin 1000) (Some (Fin 10000)) (Some (Fin 700)) =
           \<lparr>calcRequested = True,
            estFeesWeekly = Dollar (IntText (Fin 70)),
            estFeesDaily = Dollar (IntText (Fin 10)),
            estApr = Percent (IntText (Fin (364 + 1 / 2 ^ 44)))\<rparr>"
proof -
  have "handleCalculate (Fin 1000) (Some (Fin 10000)) (Some (Fin 700)) =
           \<lparr>calcRequested = True,
            estFeesWeekly = fmtUSD0 (js_mul (js_div (Fin 1000) (Fin 10000)) (Fin 700)),
            estFeesDaily = fmtUSD0 (js_div (js_mul (js_div (Fin 1000) (Fin 10000)) (Fin 700)) (Fin 7)),
            estApr = (if isFinite (js_mul (js_mul (js_div (Fin 700) (Fin 10000)) (Fin 52)) (Fin 100))
                      then Percent (fmtInt (js_mul (js_mul (js_div (Fin 700) (Fin 10000)) (Fin 52)) (Fin 100)))
                      else Dash)\<rparr>"
    using handleCalculate_formulas [of 1000 10000 700] by simp
  then show ?thesis
    unfolding div_1000_10000 mul_tenth_700 div_70_7 div_700_10000 mul_52 mul_100
    by (simp add: fmtUSD0_def fmtInt_def)
qed

text \<open>
  C5. When the deposit is not finite or not > 0, or the liquidity in range is not finite
  (\<open>null\<close> included) or not > 0, or the fees of the last seven days are not finite or are
  < 0, all three estimate fields are the placeholder. Nothing is thrown: the function is
  total. For 1000, 0 and 700 all three fields are the placeholder.
\<close>

theorem handleCalculate_unavailable:
  assumes "\<not> (\<exists>d l f. deposit = Fin d \<and> 0 < d \<and> L = Some (Fin l) \<and> 0 < l \<and> fees7 = Some (Fin f) \<and> 0 \<le> f)"
  shows "handleCalculate deposit L fees7 =
           \<lparr>calcRequested = True, estFeesWeekly = Dash, estFeesDaily = Dash, estApr = Dash\<rparr>"
proof (cases "isFinite deposit \<and> js_lt (Fin 0) deposit")
  case False
  then show ?thesis
    by (cases deposit) (auto simp: handleCalculate_def unavailable_def)
next
  case dep: True
  then obtain d where d: "deposit = Fin d" "0 < d"
    by (cases deposit) auto
  show ?thesis
  proof (cases "isFiniteNullable L \<and> js_lt (Fin 0) (numberOfNullable L)")
    case False
    then show ?thesis
      by (cases L; cases "numberOfNullable L") (auto simp: handleCalculate_def unavailable_def)
  next
    case True
    then obtain l where l: "L = Some (Fin l)" "0 < l"
      by (cases L; cases "numberOfNullable L") auto
    have "\<not> (\<exists>f. fees7 = Some (Fin f) \<and> 0 \<le> f)"
      using assms d l by blast
    then show ?thesis
      by (cases fees7; cases "numberOfNullable fees7") (auto simp: handleCalculate_def unavailable_def)
  qed
qed

theorem handleCalculate_unavailable_witness:
  "handleCalculate (Fin 1000) (Some (Fin 0)) (Some (Fin 700)) =
           \<lparr>calcRequested = True, estFeesWeekly = Dash, estFeesDaily = Dash, estApr = Dash\<rparr>
   \<and> handleCalculate NaN (Some (Fin 10000)) (Some (Fin 700)) =
           \<lparr>calcRequested = True, estFeesWeekly = Dash, estFeesDaily = Dash, estApr = Dash\<rparr>
   \<and> handleCalculate (Fin 1000) None (Some (Fin 700)) =
           \<lparr>calcRequested = True, estFeesWeekly = Dash, estFeesDaily = Dash, estApr = Dash\<rparr>
   \<and> handleCalculate (Fin 1000) (Some (Fin 10000)) (Some (Fin (- 1))) =
           \<lparr>calcRequested = True, estFeesWeekly = Dash, estFeesDaily = Dash, estApr = Dash\<rparr>"
  using handleCalculate_unavailable [of "Fin 1000" "Some (Fin 0)" "Some (Fin 700)"]
        handleCalculate_unavailable [of NaN "Some (Fin 10000)" "Some (Fin 700)"]
        handleCalculate_unavailable [of "Fin 1000" None "Some (Fin 700)"]
        handleCalculate_unavailable [of "Fin 1000" "Some (Fin 10000)" "Some (Fin (- 1))"]
  by simp

section \<open>The fee summary reducer\<close>

text \<open>
  On records with finite timestamps and fees the filter keeps every record, and the summing
  \<open>reduce\<close> is the binary64 sum of the fees. A binary64 sum of whole numbers that add up
  to at most \<open>2 ^ 53\<close> is their sum.
\<close>

lemma foldl_fees:
  "foldl (\<lambda>acc x. js_add acc (f_feesUSD x)) a
         (map (\<lambda>r. \<lparr>f_ts = Fin (fst r), f_feesUSD = Fin (snd (snd r))\<rparr>) rs)
     = foldl js_add a (map Fin (map (\<lambda>r. snd (snd r)) rs))"
  by (induction rs arbitrary: a) auto

lemma fees_of_feeRecords:
  "filter (\<lambda>d. isFinite (f_ts d) \<and> isFinite (f_feesUSD d))
     (map (\<lambda>d. \<lparr>f_ts = d_ts d, f_feesUSD = numberOfNullable (d_feesUSD d)\<rparr>) (map feeRecord rs))
   = map (\<lambda>r. \<lparr>f_ts = Fin (fst r), f_feesUSD = Fin (snd (snd r))\<rparr>) rs"
  by (induction rs) (auto simp: feeRecord_def split: prod.splits)

lemma sumLastN_feeRecords:
  "sumLastN (map (\<lambda>r. \<lparr>f_ts = Fin (fst r), f_feesUSD = Fin (snd (snd r))\<rparr>) rs) n
     = finiteOrNull (binary64Sum (map (\<lambda>r. snd (snd r)) (drop (length rs - n) rs)))"
  by (simp add: sumLastN_def sliceLast_def Let_def drop_map foldl_fees finiteOrNull_def binary64Sum_def)

lemma foldl_js_add_whole:
  assumes "a \<in> \<nat>" "\<forall>x \<in> set xs. x \<in> \<nat>" "a + sum_list xs \<le> 2 ^ 53"
  shows "foldl js_add (Fin a) (map Fin xs) = Fin (a + sum_list xs)"
  using assms
proof (induction xs arbitrary: a)
  case Nil
  then show ?case by simp
next
  case (Cons x xs)
  have nn: "0 \<le> sum_list xs"
    using Cons.prems(2) by (intro sum_list_nonneg) (auto simp: Nats_def)
  have ax: "a + x \<in> \<nat>"
    using Cons.prems by (simp add: Nats_add)
  have le: "a + x \<le> 2 ^ 53"
    using Cons.prems(3) nn by simp
  have "js_add (Fin a) (Fin x) = Fin (a + x)"
    by (simp add: js_add_Fin round64_nat [OF ax le])
  moreover have "foldl js_add (Fin (a + x)) (map Fin xs) = Fin (a + x + sum_list xs)"
    using Cons.prems by (intro Cons.IH ax) (simp_all add: add.assoc)
  ultimately show ?case
    by (simp add: add.assoc)
qed

lemma sum_list_drop_le:
  fixes xs :: "real list"
  assumes "\<forall>x \<in> set xs. 0 \<le> x"
  shows "sum_list (drop k xs) \<le> sum_list xs"
proof -
  have "sum_list xs = sum_list (take k xs) + sum_list (drop k xs)"
    by (metis append_take_drop_id sum_list_append)
  moreover have "0 \<le> sum_list (take k xs)"
    using assms by (intro sum_list_nonneg) (auto dest: in_set_takeD)
  ultimately show ?thesis by simp
qed

lemma binary64Sum_whole:
  assumes "\<forall>x \<in> set xs. x \<in> \<nat>" "sum_list xs \<le> 2 ^ 53"
  shows "finiteOrNull (binary64Sum (drop k xs)) = Some (Fin (sum_list (drop k xs)))"
proof -
  have nn: "\<forall>x \<in> set xs. 0 \<le> x"
    using assms(1) by (auto simp: Nats_def)
  have "sum_list (drop k xs) \<le> 2 ^ 53"
    using sum_list_drop_le [OF nn, of k] assms(2) by simp
  moreover have "\<forall>x \<in> set (drop k xs). x \<in> \<nat>"
    using assms(1) by (auto dest: in_set_dropD)
  ultimately have "foldl js_add (Fin 0) (map Fin (drop k xs)) = Fin (0 + sum_list (drop k xs))"
    by (intro foldl_js_add_whole) simp_all
  then show ?thesis
    by (simp add: binary64Sum_def finiteOrNull_def)
qed

text \<open>
  C7, as the claim states it, fails on binary64 sums: two records with fees of \<open>2 ^ 1023\<close>
  give \<open>null\<close> for the last 7 and the last 30 days, and the fees \<open>2 ^ 53\<close>, 1 and 1 give
  9007199254740992 for the last 7 days where their sum is 9007199254740994.
\<close>

theorem feesSummary_sum_counterexample:
  "feesSummary (map feeRecord [(1, 2000, big), (2, 2000, big)])
     = \<lparr>last1d = Some (Fin big), last7d = None, last30d = None\<rparr>
   \<and> last7d (feesSummary (map feeRecord [(1, 2000, big), (2, 2000, big)]))
       \<noteq> Some (Fin (sum_list [big, big]))
   \<and> last7d (feesSummary (map feeRecord [(1, 2000, 9007199254740992), (2, 2000, 1), (3, 2000, 1)]))
       = Some (Fin 9007199254740992)
   \<and> sum_list [9007199254740992, 1, 1 :: real] = 9007199254740994"
proof -
  have a: "feesSummary (map feeRecord [(1, 2000, big), (2, 2000, big)])
     = \<lparr>last1d = Some (Fin big), last7d = None, last30d = None\<rparr>"
    by (simp add: feesSummary_def feeRecord_def sumLastN_def sliceLast_def add_big add_big_big)
  have b: "last7d (feesSummary (map feeRecord [(1, 2000, 9007199254740992), (2, 2000, 1), (3, 2000, 1)]))
       = Some (Fin 9007199254740992)"
    by (simp add: feesSummary_def feeRecord_def sumLastN_def sliceLast_def
                  js_add_Fin round64_numeral round64_tie)
  from a b show ?thesis
    by simp
qed

text \<open>
  C7, amended. For a sequence of fee records (finite timestamps and fees) that is not
  empty, \<open>last1d\<close> is the fee of the last record, and \<open>last7d\<close> and \<open>last30d\<close> are the
  binary64 sums, from 0 and in the order of the sequence, of the fees of the last 7 and the
  last 30 records by position, or of all records when there are fewer; a sum that is not
  finite gives \<open>null\<close>. Nothing is padded. When the fees are whole numbers that add up to
  at most \<open>2 ^ 53\<close>, the three fields are the sums of the fees of the last 1, 7 and 30
  records. For the empty sequence every field is \<open>null\<close>. A single record with fee 10
  gives 10, 10 and 10.
\<close>

theorem feesSummary_trailing_sums:
  "feesSummary (map feeRecord rs) =
     (if rs = [] then \<lparr>last1d = None, last7d = None, last30d = None\<rparr>
      else \<lparr>last1d = Some (Fin (snd (snd (last rs)))),
            last7d = finiteOrNull (binary64Sum (map (\<lambda>r. snd (snd r)) (drop (length rs - 7) rs))),
            last30d = finiteOrNull (binary64Sum (map (\<lambda>r. snd (snd r)) (drop (length rs - 30) rs)))\<rparr>)
   \<and> ((\<forall>r \<in> set rs. snd (snd r) \<in> \<nat>) \<and> sum_list (map (\<lambda>r. snd (snd r)) rs) \<le> 2 ^ 53 \<longrightarrow>
        feesSummary (map feeRecord rs) =
          (if rs = [] then \<lparr>last1d = None, last7d = None, last30d = None\<rparr>
           else \<lparr>last1d = Some (Fin (sum_list (map (\<lambda>r. snd (snd r)) (drop (length rs - 1) rs)))),
                 last7d = Some (Fin (sum_list (map (\<lambda>r. snd (snd r)) (drop (length rs - 7) rs)))),
                 last30d = Some (Fin (sum_list (map (\<lambda>r. snd (snd r)) (drop (length rs - 30) rs))))\<rparr>))"
proof -
  have main: "feesSummary (map feeRecord rs) =
     (if rs = [] then \<lparr>last1d = None, last7d = None, last30d = None\<rparr>
      else \<lparr>last1d = Some (Fin (snd (snd (last rs)))),
            last7d = finiteOrNull (binary64Sum (map (\<lambda>r. snd (snd r)) (drop (length rs - 7) rs))),
            last30d = finiteOrNull (binary64Sum (map (\<lambda>r. snd (snd r)) (drop (length rs - 30) rs)))\<rparr>)"
  proof (cases "rs = []")
    case True
    then show ?thesis by (simp add: feesSummary_def)
  next
    case False
    have "f_feesUSD (last (map (\<lambda>r. \<lparr>f_ts = Fin (fst r), f_feesUSD = Fin (snd (snd r))\<rparr>) rs))
            = Fin (snd (snd (last rs)))"
      using False by (simp add: last_map)
    with False show ?thesis
      unfolding feesSummary_def fees_of_feeRecords Let_def
      by (simp add: sumLastN_feeRecords)
  qed
  have whole: "feesSummary (map feeRecord rs) =
          (if rs = [] then \<lparr>last1d = None, last7d = None, last30d = None\<rparr>
           else \<lparr>last1d = Some (Fin (sum_list (map (\<lambda>r. snd (snd r)) (drop (length rs - 1) rs)))),
                 last7d = Some (Fin (sum_list (map (\<lambda>r. snd (snd r)) (drop (length rs - 7) rs)))),
                 last30d = Some (Fin (sum_list (map (\<lambda>r. snd (snd r)) (drop (length rs - 30) rs))))\<rparr>)"
    if h: "(\<forall>r \<in> set rs. snd (snd r) \<in> \<nat>) \<and> sum_list (map (\<lambda>r. snd (snd r)) rs) \<le> 2 ^ 53"
  proof -
    let ?fs = "map (\<lambda>r. snd (snd r)) rs"
    from h have a: "\<forall>x \<in> set ?fs. x \<in> \<nat>" and b: "sum_list ?fs \<le> 2 ^ 53"
      by auto
    have s: "finiteOrNull (binary64Sum (map (\<lambda>r. snd (snd r)) (drop k rs)))
               = Some (Fin (sum_list (map (\<lambda>r. snd (snd r)) (drop k rs))))" for k
      using binary64Sum_whole [OF a b, of k] by (simp add: drop_map)
    have l: "drop (length rs - Suc 0) rs = [last rs]" if "rs \<noteq> []"
      using that by (cases rs rule: rev_cases) auto
    show ?thesis
      by (simp add: main s l)
  qed
  from main whole show ?thesis
    by (intro conjI impI)
qed

theorem feesSummary_trailing_sums_witness:
  "feesSummary (map feeRecord [(1, 2000, 10)]) =
     \<lparr>last1d = Some (Fin 10), last7d = Some (Fin 10), last30d = Some (Fin 10)\<rparr>
   \<and> feesSummary (map feeRecord []) = \<lparr>last1d = None, last7d = None, last30d = None\<rparr>
   \<and> feesSummary (map feeRecord [(1, 2000, 1), (2, 2000, 2), (3, 2000, 3), (4, 2000, 4), (5, 2000, 5),
                                  (6, 2000, 6), (7, 2000, 7), (8, 2000, 8)]) =
     \<lparr>last1d = Some (Fin 8), last7d = Some (Fin 35), last30d = Some (Fin 36)\<rparr>"
  using feesSummary_trailing_sums [of "[(1, 2000, 10)]"]
        feesSummary_trailing_sums [of "[]"]
        feesSummary_trailing_sums [of "[(1, 2000, 1), (2, 2000, 2), (3, 2000, 3), (4, 2000, 4), (5, 2000, 5),
                                  (6, 2000, 6), (7, 2000, 7), (8, 2000, 8)]"]
  by (simp add: binary64Sum_def finiteOrNull_def js_add_Fin round64_numeral round64_one)

section \<open>The range bounds controller\<close>

lemma commitBounds_fields:
  "upperValue (commitBounds up lo s) = up"
  "lowerValue (commitBounds up lo s) = lo"
  "hourlyAll (commitBounds up lo s) = hourlyAll s"
  "didInitBounds (commitBounds up lo s) = didInitBounds s"
  "dragging (commitBounds up lo s) = dragging s"
  by (simp_all add: commitBounds_def chartLinesEffect_def)


lemma mount_fields:
  "upperValue mount = Fin 1000"
  "lowerValue mount = Fin (- 1000)"
  "hourlyAll mount = []"
  "didInitBounds mount = False"
  "nextObj mount = 2"
  "lines mount = Some [0, 1]"
  "dragging mount = None"
  "objs mount 0 = \<lparr>label = UpperBound, lvalue = Fin 1000, onDragEnd = SetUpperValue\<rparr>"
  "objs mount (Suc 0) = \<lparr>label = LowerBound, lvalue = Fin (- 1000), onDragEnd = SetLowerValue\<rparr>"
  by (simp_all add: mount_def chartLinesEffect_def)



lemma pointerDown_other_event:
  "etype event \<noteq> MouseDown \<Longrightarrow> pointerDown yScale chartArea event ls s = s"
  by (simp add: pointerDown_def)

lemma pointerUp_other_event:
  "etype event \<noteq> MouseUp \<Longrightarrow> etype event \<noteq> MouseOut \<Longrightarrow> pointerUp event s = s"
  by (simp add: pointerUp_def)

lemma afterEvent_move:
  "etype event = MouseMove \<Longrightarrow> lines s = Some ls \<Longrightarrow>
     afterEvent yScale chartArea event s = pointerMove yScale event ls s"
  by (simp add: afterEvent_def pointerDown_other_event pointerUp_other_event split: sum.splits)

text \<open>
  C10. An operation that updates one bound touches only that bound. A pointer move during
  a drag writes the dragged line object and nothing else: the component's two values and
  every other line object stay as they are, so a drag of the upper line never changes a
  lower line and a drag of the lower line never changes an upper line. A typed upper bound
  leaves the lower value as it is, a typed lower bound leaves the upper value as it is, and
  a typed value that is not finite changes nothing at all.
\<close>

theorem bound_updates_touch_one_bound:
  "(etype event = MouseMove \<and> dragging s = Some d \<and> afterEvent yScale chartArea event s = Inr s' \<longrightarrow>
      lowerValue s' = lowerValue s \<and> upperValue s' = upperValue s
      \<and> (\<forall>a. a \<noteq> d \<longrightarrow> objs s' a = objs s a)
      \<and> (\<forall>a. label (objs s a) \<noteq> label (objs s d) \<longrightarrow> objs s' a = objs s a)
      \<and> label (objs s' d) = label (objs s d))
   \<and> lowerValue (applyUpper n s) = lowerValue s
   \<and> upperValue (applyLower n s) = upperValue s
   \<and> (\<not> isFinite n \<longrightarrow> applyUpper n s = s \<and> applyLower n s = s)"
proof -
  have move: "lowerValue s' = lowerValue s \<and> upperValue s' = upperValue s
      \<and> (\<forall>a. a \<noteq> d \<longrightarrow> objs s' a = objs s a) \<and> label (objs s' d) = label (objs s d)"
    if "etype event = MouseMove" "dragging s = Some d" "afterEvent yScale chartArea event s = Inr s'"
  proof (cases "lines s")
    case None
    with that show ?thesis by (simp add: afterEvent_def)
  next
    case (Some ls)
    with that have "pointerMove yScale event ls s = Inr s'"
      by (simp add: afterEvent_move)
    with that(1,2) show ?thesis
      by (auto simp: pointerMove_def Let_def split: if_splits option.splits)
  qed
  have typed: "lowerValue (applyUpper n s) = lowerValue s" "upperValue (applyLower n s) = upperValue s"
    by (simp_all add: applyUpper_def applyLower_def setUpperValue_def setLowerValue_def commitBounds_fields)
  have nonfinite: "\<not> isFinite n \<Longrightarrow> applyUpper n s = s \<and> applyLower n s = s"
    by (simp add: applyUpper_def applyLower_def)
  from move typed nonfinite show ?thesis
    by (metis (no_types, lifting))
qed

theorem bound_updates_touch_one_bound_witness:
  "(\<exists>s'. afterEvent (linearScale (- 1080) 1080 0 432) (areaOf 0 800 0 432)
            \<lparr>etype = MouseMove, ex = Fin 400, ey = Fin 116\<rparr> (mount\<lparr>dragging := Some 0\<rparr>) = Inr s'
         \<and> lvalue (objs s' 0) = Fin 500
         \<and> objs s' 1 = \<lparr>label = LowerBound, lvalue = Fin (- 1000), onDragEnd = SetLowerValue\<rparr>
         \<and> lowerValue s' = Fin (- 1000) \<and> upperValue s' = Fin 1000)
   \<and> lowerValue (applyUpper (Fin 1500) mount) = Fin (- 1000)
   \<and> upperValue (applyUpper (Fin 1500) mount) = Fin 1500
   \<and> upperValue (applyLower (Fin 500) mount) = Fin 1000
   \<and> lowerValue (applyLower (Fin 500) mount) = Fin 500
   \<and> applyUpper NaN mount = mount \<and> applyLower PInf mount = mount"
proof -
  let ?sc = "linearScale (- 1080) 1080 0 432"
  let ?ar = "areaOf 0 800 0 432"
  let ?ev = "\<lparr>etype = MouseMove, ex = Fin 400, ey = Fin 116\<rparr>"
  let ?s = "mount\<lparr>dragging := Some 0\<rparr>"
  let ?s' = "?s\<lparr>objs := (objs ?s)(0 := (objs ?s 0)\<lparr>lvalue := Fin 500\<rparr>)\<rparr>"
  have cand: "dragCandidate ?sc ?ev = Fin 500"
    by (simp add: dragCandidate_def linearScale_def clamp_def js_min_def js_max_def)
  have run: "afterEvent ?sc ?ar ?ev ?s = Inr ?s'"
    by (simp add: afterEvent_def pointerDown_def pointerUp_def pointerMove_def cand findLine_def
                  mount_fields js_max_def)
  have up: "upperValue (applyUpper (Fin 1500) mount) = Fin 1500"
           "lowerValue (applyLower (Fin 500) mount) = Fin 500"
    by (simp_all add: applyUpper_def applyLower_def setUpperValue_def setLowerValue_def
                      commitBounds_def chartLinesEffect_def mount_fields js_max_def js_min_def)
  show ?thesis
    using bound_updates_touch_one_bound [of ?ev ?s 0 ?sc ?ar ?s' NaN]
          bound_updates_touch_one_bound [of ?ev mount 0 ?sc ?ar ?s' "Fin 1500"]
          bound_updates_touch_one_bound [of ?ev mount 0 ?sc ?ar ?s' "Fin 500"]
          bound_updates_touch_one_bound [of ?ev mount 0 ?sc ?ar ?s' NaN]
          bound_updates_touch_one_bound [of ?ev mount 0 ?sc ?ar ?s' PInf]
          run up
    by (simp add: mount_fields)
qed

lemma js_max_Fin: "js_max (Fin a) (Fin b) = Fin (max a b)"
  by (simp add: js_max_def max_def)

lemma js_min_Fin: "js_min (Fin a) (Fin b) = Fin (min a b)"
  by (simp add: js_min_def min_def)

text \<open>
  C6, as the claim states it, fails on the dragger plugin of the earlier page: a lower
  line dragged to 150 against an upper price of 100 is set to 99.99, not to 100, and the
  value under the pointer is not clamped to the axis.
\<close>

theorem draggerAfterEvent_epsilon_counterexample:
  "lowerPrice (draggerAfterEvent (linearScale 0 200 0 200)
       (Some \<lparr>etype = MouseMove, ex = Fin 10, ey = Fin 50\<rparr>)
       \<lparr>activeAnnotationElement = Some LowerLineId, isDraggingAnnotation = True,
        lowerPrice = Some (Fin 90), upperPrice = Some (Fin 100),
        lowerLineY = Some (Fin 90), upperLineY = Some (Fin 100)\<rparr>) = Some (Fin 99.99)
   \<and> upperPrice (draggerAfterEvent (linearScale 0 200 0 200)
       (Some \<lparr>etype = MouseMove, ex = Fin 10, ey = Fin 50\<rparr>)
       \<lparr>activeAnnotationElement = Some LowerLineId, isDraggingAnnotation = True,
        lowerPrice = Some (Fin 90), upperPrice = Some (Fin 100),
        lowerLineY = Some (Fin 90), upperLineY = Some (Fin 100)\<rparr>) = Some (Fin 100)
   \<and> getValueForPixel (linearScale 0 200 0 200) (Fin 50) = Fin 150"
  by (simp add: draggerAfterEvent_def linearScale_def js_ge_def exact_sub_def Let_def)

text \<open>
  C6, amended. In the dashboard's plugin a pointer move during a drag first clamps the
  value under the pointer to the axis range and then sets the dragged line to the larger of
  this candidate and the lower line's value (upper line dragged) or to the smaller of the
  candidate and the upper line's value (lower line dragged): when the candidate crosses the
  other line, the dragged line gets exactly the other line's value. In the dragger plugin
  of the earlier page there is no clamp to the axis, and a value that reaches or crosses the
  other bound is replaced by the other bound minus 0.01 (lower line dragged) or plus 0.01
  (upper line dragged).
\<close>

theorem drag_clamp_against_other_bound:
  "(lines s = Some ls \<and> dragging s = Some d \<and> etype event = MouseMove
      \<and> findLine s ls UpperBound = Some u \<and> findLine s ls LowerBound = Some l
      \<and> dragCandidate yScale event = Fin c \<and> lvalue (objs s u) = Fin uv \<and> lvalue (objs s l) = Fin lv \<longrightarrow>
      (\<exists>s'. afterEvent yScale chartArea event s = Inr s' \<and>
         lvalue (objs s' d) = (if label (objs s d) = UpperBound then Fin (max c lv) else Fin (min c uv))))
   \<and> (scale_min yScale = Fin mn \<and> scale_max yScale = Fin mx \<and> getValueForPixel yScale (ey event) = Fin v \<longrightarrow>
        dragCandidate yScale event = Fin (max mn (min mx v)))
   \<and> (etype event = MouseMove \<and> isDraggingAnnotation t \<and> getValueForPixel yScale (ey event) = Fin v \<longrightarrow>
        (activeAnnotationElement t = Some LowerLineId \<and> upperPrice t = Some (Fin g) \<longrightarrow>
           lowerPrice (draggerAfterEvent yScale (Some event) t) = Some (Fin (if g \<le> v then g - 0.01 else v)))
      \<and> (activeAnnotationElement t = Some UpperLineId \<and> lowerPrice t = Some (Fin g) \<longrightarrow>
           upperPrice (draggerAfterEvent yScale (Some event) t) = Some (Fin (if v \<le> g then g + 0.01 else v))))"
proof -
  have dash: "\<exists>s'. afterEvent yScale chartArea event s = Inr s' \<and>
         lvalue (objs s' d) = (if label (objs s d) = UpperBound then Fin (max c lv) else Fin (min c uv))"
    if "lines s = Some ls" "dragging s = Some d" "etype event = MouseMove"
       "findLine s ls UpperBound = Some u" "findLine s ls LowerBound = Some l"
       "dragCandidate yScale event = Fin c" "lvalue (objs s u) = Fin uv" "lvalue (objs s l) = Fin lv"
    using that
    by (simp add: afterEvent_move pointerMove_def Let_def js_max_Fin js_min_Fin)
  have cand: "dragCandidate yScale event = Fin (max mn (min mx v))"
    if "scale_min yScale = Fin mn" "scale_max yScale = Fin mx" "getValueForPixel yScale (ey event) = Fin v"
    using that by (simp add: dragCandidate_def clamp_def js_max_Fin js_min_Fin)
  have low: "lowerPrice (draggerAfterEvent yScale (Some event) t) = Some (Fin (if g \<le> v then g - 0.01 else v))"
    if "etype event = MouseMove" "isDraggingAnnotation t" "getValueForPixel yScale (ey event) = Fin v"
       "activeAnnotationElement t = Some LowerLineId" "upperPrice t = Some (Fin g)"
    using that by (simp add: draggerAfterEvent_def js_ge_def exact_sub_def Let_def)
  have upp: "upperPrice (draggerAfterEvent yScale (Some event) t) = Some (Fin (if v \<le> g then g + 0.01 else v))"
    if "etype event = MouseMove" "isDraggingAnnotation t" "getValueForPixel yScale (ey event) = Fin v"
       "activeAnnotationElement t = Some UpperLineId" "lowerPrice t = Some (Fin g)"
    using that by (simp add: draggerAfterEvent_def Let_def)
  from dash cand low upp show ?thesis
    by (intro conjI impI) (elim conjE, assumption+)+
qed

theorem drag_clamp_against_other_bound_witness:
  "(\<exists>s'. afterEvent (linearScale (- 1080) 1080 0 432) (areaOf 0 800 0 432)
            \<lparr>etype = MouseMove, ex = Fin 400, ey = Fin (- 84)\<rparr> (mount\<lparr>dragging := Some 1\<rparr>) = Inr s'
         \<and> lvalue (objs s' 1) = Fin 1000)
   \<and> getValueForPixel (linearScale (- 1080) 1080 0 432) (Fin (- 84)) = Fin 1500
   \<and> dragCandidate (linearScale (- 1080) 1080 0 432) \<lparr>etype = MouseMove, ex = Fin 400, ey = Fin (- 84)\<rparr>
       = Fin 1080
   \<and> lowerPrice (draggerAfterEvent (linearScale (- 1080) 1080 0 432)
        (Some \<lparr>etype = MouseMove, ex = Fin 400, ey = Fin (- 84)\<rparr>)
        \<lparr>activeAnnotationElement = Some LowerLineId, isDraggingAnnotation = True,
         lowerPrice = Some (Fin (- 1000)), upperPrice = Some (Fin 1000),
         lowerLineY = Some (Fin (- 1000)), upperLineY = Some (Fin 1000)\<rparr>) = Some (Fin 999.99)
   \<and> upperPrice (draggerAfterEvent (linearScale (- 1080) 1080 0 432)
        (Some \<lparr>etype = MouseMove, ex = Fin 400, ey = Fin (- 84)\<rparr>)
        \<lparr>activeAnnotationElement = Some UpperLineId, isDraggingAnnotation = True,
         lowerPrice = Some (Fin (- 1000)), upperPrice = Some (Fin 1000),
         lowerLineY = Some (Fin (- 1000)), upperLineY = Some (Fin 1000)\<rparr>) = Some (Fin 1500)"
proof -
  let ?sc = "linearScale (- 1080) 1080 0 432"
  let ?ar = "areaOf 0 800 0 432"
  let ?ev = "\<lparr>etype = MouseMove, ex = Fin 400, ey = Fin (- 84)\<rparr>"
  let ?s = "mount\<lparr>dragging := Some 1\<rparr>"
  let ?tl = "\<lparr>activeAnnotationElement = Some LowerLineId, isDraggingAnnotation = True,
         lowerPrice = Some (Fin (- 1000)), upperPrice = Some (Fin 1000),
         lowerLineY = Some (Fin (- 1000)), upperLineY = Some (Fin 1000)\<rparr>"
  let ?tu = "\<lparr>activeAnnotationElement = Some UpperLineId, isDraggingAnnotation = True,
         lowerPrice = Some (Fin (- 1000)), upperPrice = Some (Fin 1000),
         lowerLineY = Some (Fin (- 1000)), upperLineY = Some (Fin 1000)\<rparr>"
  have v: "getValueForPixel ?sc (ey ?ev) = Fin 1500"
    by (simp add: linearScale_def)
  have ax: "scale_min ?sc = Fin (- 1080)" "scale_max ?sc = Fin 1080"
    by (simp_all add: linearScale_def)
  have c: "dragCandidate ?sc ?ev = Fin 1080"
    using drag_clamp_against_other_bound [of _ _ _ ?ev _ _ ?sc _ _ _ _ "- 1080" 1080 1500] v ax
    by simp
  have st: "lines ?s = Some [0, 1]" "dragging ?s = Some 1" "etype ?ev = MouseMove"
      "findLine ?s [0, 1] UpperBound = Some 0" "findLine ?s [0, 1] LowerBound = Some 1"
      "lvalue (objs ?s 0) = Fin 1000" "lvalue (objs ?s 1) = Fin (- 1000)"
      "label (objs ?s 1) = LowerBound"
    by (simp_all add: mount_fields findLine_def)
  have d: "\<exists>s'. afterEvent ?sc ?ar ?ev ?s = Inr s' \<and> lvalue (objs s' 1) = Fin 1000"
    using drag_clamp_against_other_bound [of ?s "[0, 1]" 1 ?ev 0 1 ?sc 1080 1000 "- 1000" ?ar] st c
    by simp
  have tl: "lowerPrice (draggerAfterEvent ?sc (Some ?ev) ?tl) = Some (Fin 999.99)"
    using drag_clamp_against_other_bound [of _ _ _ ?ev _ _ ?sc _ _ _ _ _ _ 1500 ?tl 1000] v
    by simp
  have tu: "upperPrice (draggerAfterEvent ?sc (Some ?ev) ?tu) = Some (Fin 1500)"
    using drag_clamp_against_other_bound [of _ _ _ ?ev _ _ ?sc _ _ _ _ _ _ 1500 ?tu "- 1000"] v
    by simp
  from d v c tl tu show ?thesis
    by simp
qed

text \<open>
  C1. Every operation clamps the bound it writes against the other bound, but the order
  of the two bounds is not kept by every sequence. A line object that is held when the chart's lines are replaced stays referenced
  by the drag state, and the end of the drag writes its old value into the component
  state. Here the upper line is grabbed at 1000, the hourly prices arrive and seed the
  bounds to 2850 and 3150, and the release of the pointer sets the upper value back to
  1000: the lower value 2850 is above the upper value 1000.
\<close>

theorem stale_drag_commit_inverts_bounds:
  "boundsAfter (run
      [Pointer (linearScale (- 1080) 1080 0 432) (areaOf 0 800 0 432)
         \<lparr>etype = MouseDown, ex = Fin 400, ey = Fin 16\<rparr>,
       HourlyLoaded [\<lparr>r_ts = Fin 1, r_token0Price = Fin 3000, r_price = NaN, r_token1Price = NaN\<rparr>]]
      mount) = Some (Fin 2850, Fin 3150)
   \<and> boundsAfter (run
      [Pointer (linearScale (- 1080) 1080 0 432) (areaOf 0 800 0 432)
         \<lparr>etype = MouseDown, ex = Fin 400, ey = Fin 16\<rparr>,
       HourlyLoaded [\<lparr>r_ts = Fin 1, r_token0Price = Fin 3000, r_price = NaN, r_token1Price = NaN\<rparr>],
       Pointer (linearScale (- 1080) 1080 0 432) (areaOf 0 800 0 432)
         \<lparr>etype = MouseUp, ex = Fin 400, ey = Fin 16\<rparr>]
      mount) = Some (Fin 2850, Fin 1000)
   \<and> \<not> js_le (Fin 2850) (Fin 1000)"
proof -
  let ?sc = "linearScale (- 1080) 1080 0 432"
  let ?ar = "areaOf 0 800 0 432"
  let ?down = "\<lparr>etype = MouseDown, ex = Fin 400, ey = Fin 16\<rparr>"
  let ?up = "\<lparr>etype = MouseUp, ex = Fin 400, ey = Fin 16\<rparr>"
  let ?raw = "[\<lparr>r_ts = Fin 1, r_token0Price = Fin 3000, r_price = NaN, r_token1Price = NaN\<rparr>]"
  let ?s1 = "mount\<lparr>dragging := Some 0\<rparr>"
  have hit: "hitLine mount ?sc ?down [0, Suc 0] = Some 0"
    by (simp add: hitLine_def linearScale_def exact_sub_def mount_fields)
  have ins: "inside ?ar ?down"
    by (simp add: inside_def areaOf_def js_ge_def)
  have s1: "afterEvent ?sc ?ar ?down mount = Inr ?s1"
    by (simp add: afterEvent_def pointerDown_def pointerMove_def pointerUp_def hit ins mount_fields)
  let ?s2 = "loadHourly ?raw ?s1"
  have s2: "upperValue ?s2 = Fin 3150" "lowerValue ?s2 = Fin 2850" "dragging ?s2 = Some 0"
      "objs ?s2 0 = \<lparr>label = UpperBound, lvalue = Fin 1000, onDragEnd = SetUpperValue\<rparr>"
      "lines ?s2 = Some [2, 3]"
    by (simp_all add: loadHourly_def mapPoints_def extractPrice_def commitBounds_def chartLinesEffect_def
                      mount_fields Let_def)
  have s3: "afterEvent ?sc ?ar ?up ?s2 = Inr (setUpperValue (Fin 1000) (?s2\<lparr>dragging := None\<rparr>))"
    by (simp add: afterEvent_def pointerDown_def pointerMove_def pointerUp_def s2)
  have b3: "lowerValue (setUpperValue (Fin 1000) (?s2\<lparr>dragging := None\<rparr>)) = Fin 2850"
           "upperValue (setUpperValue (Fin 1000) (?s2\<lparr>dragging := None\<rparr>)) = Fin 1000"
    by (simp_all add: setUpperValue_def commitBounds_fields s2)
  show ?thesis
    by (simp add: boundsAfter_def s1 s2 s3 b3)
qed

text \<open>
  Outside such interleavings the order is kept. The well-formed states are closed under
  every undisturbed action, no undisturbed run throws, and the bounds are in order after
  every step of an undisturbed run from the mounted dashboard.
\<close>

lemma js_le_js_max: "a \<noteq> NaN \<Longrightarrow> b \<noteq> NaN \<Longrightarrow> js_le b (js_max a b)"
  by (cases a; cases b) (auto simp: js_max_def)

lemma js_le_js_min: "a \<noteq> NaN \<Longrightarrow> b \<noteq> NaN \<Longrightarrow> js_le (js_min a b) b"
  by (cases a; cases b) (auto simp: js_min_def)

lemma js_le_not_NaN: "js_le a b \<Longrightarrow> a \<noteq> NaN \<and> b \<noteq> NaN"
  by (cases a; cases b) auto

lemma isFinite_not_NaN: "isFinite a \<Longrightarrow> a \<noteq> NaN"
  by (cases a) auto

lemma seed_in_order:
  "isFinite p \<Longrightarrow> js_le (Fin 0) p \<Longrightarrow> js_le (exact_mul p (Fin 0.95)) (exact_mul p (Fin 1.05))"
  by (cases p) (auto simp: mult_left_mono)

lemma linesInOrder_iff:
  "linesInOrder s = (\<exists>u l. lines s = Some [u, l] \<and> pairInOrder s u l)"
  by (auto simp: linesInOrder_def split: option.splits list.splits)

lemma wellFormed_mount: "wellFormed mount"
  by (simp add: wellFormed_def boundsInOrder_def linesInOrder_iff pairInOrder_def
                pricesNonNegative_def mount_fields)

lemma commitBounds_wellFormed:
  assumes "pricesNonNegative s" "dragging s = None" "js_le lo up"
    and "up = upperValue s \<and> lo = lowerValue s \<Longrightarrow> linesInOrder s"
  shows "wellFormed (commitBounds up lo s)"
proof (cases "up = upperValue s \<and> lo = lowerValue s")
  case True
  with assms show ?thesis
    by (simp add: commitBounds_def wellFormed_def boundsInOrder_def)
next
  case False
  then have "commitBounds up lo s = chartLinesEffect (s\<lparr>upperValue := up, lowerValue := lo\<rparr>)"
    unfolding commitBounds_def by (simp only: if_False)
  with assms(1-3) show ?thesis
    by (simp add: wellFormed_def boundsInOrder_def linesInOrder_iff pairInOrder_def
                  pricesNonNegative_def chartLinesEffect_def)
qed

lemma wellFormed_frame:
  "linesInOrder (s\<lparr>hourlyAll := h\<rparr>) = linesInOrder s"
  "linesInOrder (s\<lparr>didInitBounds := b\<rparr>) = linesInOrder s"
  "boundsInOrder (s\<lparr>hourlyAll := h\<rparr>) = boundsInOrder s"
  "boundsInOrder (s\<lparr>didInitBounds := b\<rparr>) = boundsInOrder s"
  "boundsInOrder (s\<lparr>dragging := g\<rparr>) = boundsInOrder s"
  "boundsInOrder (s\<lparr>objs := f\<rparr>) = boundsInOrder s"
  "pricesNonNegative (s\<lparr>didInitBounds := b\<rparr>) = pricesNonNegative s"
  "pricesNonNegative (s\<lparr>dragging := g\<rparr>) = pricesNonNegative s"
  "pricesNonNegative (s\<lparr>objs := f\<rparr>) = pricesNonNegative s"
  by (simp_all add: linesInOrder_iff pairInOrder_def boundsInOrder_def pricesNonNegative_def
                    cong: option.case_cong)

lemma typed_wellFormed:
  assumes "wellFormed s" "dragging s = None"
  shows "wellFormed (applyUpper n s)" "wellFormed (applyLower n s)"
proof -
  from assms(1) have nn: "lowerValue s \<noteq> NaN" "upperValue s \<noteq> NaN"
    using js_le_not_NaN [of "lowerValue s" "upperValue s"]
    by (simp_all add: wellFormed_def boundsInOrder_def)
  from assms(1) have parts: "pricesNonNegative s" "linesInOrder s"
    by (simp_all add: wellFormed_def)
  show "wellFormed (applyUpper n s)"
  proof (cases "isFinite n")
    case True
    then have "js_le (lowerValue s) (js_max n (lowerValue s))"
      using nn by (simp add: js_le_js_max isFinite_not_NaN)
    then have "wellFormed (commitBounds (js_max n (lowerValue s)) (lowerValue s) s)"
      using parts assms(2) by (intro commitBounds_wellFormed)
    with True show ?thesis
      by (simp add: applyUpper_def setUpperValue_def)
  qed (use assms in \<open>simp add: applyUpper_def\<close>)
  show "wellFormed (applyLower n s)"
  proof (cases "isFinite n")
    case True
    then have "js_le (js_min n (upperValue s)) (upperValue s)"
      using nn by (simp add: js_le_js_min isFinite_not_NaN)
    then have "wellFormed (commitBounds (upperValue s) (js_min n (upperValue s)) s)"
      using parts assms(2) by (intro commitBounds_wellFormed)
    with True show ?thesis
      by (simp add: applyLower_def setLowerValue_def)
  qed (use assms in \<open>simp add: applyLower_def\<close>)
qed

lemma handleReset_wellFormed:
  assumes "wellFormed s" "dragging s = None"
  shows "wellFormed (handleReset s)"
proof (cases "isFiniteNullable (currentPrice s)")
  case False
  with assms show ?thesis by (simp add: handleReset_def)
next
  case True
  from assms(1) have parts: "pricesNonNegative s" "linesInOrder s"
    by (simp_all add: wellFormed_def)
  let ?p = "numberOfNullable (currentPrice s)"
  from True have ne: "hourlyAll s \<noteq> []"
    by (auto simp: currentPrice_def)
  then have "last (hourlyAll s) \<in> set (hourlyAll s)"
    by simp
  with parts(1) have "isFinite (p_price (last (hourlyAll s)))" "js_le (Fin 0) (p_price (last (hourlyAll s)))"
    by (simp_all add: pricesNonNegative_def list_all_iff)
  moreover have "?p = p_price (last (hourlyAll s))"
    using ne by (simp add: currentPrice_def)
  ultimately have "js_le (exact_mul ?p (Fin 0.95)) (exact_mul ?p (Fin 1.05))"
    by (simp only: seed_in_order)
  then have "wellFormed (commitBounds (exact_mul ?p (Fin 1.05)) (exact_mul ?p (Fin 0.95)) s)"
    using parts assms(2) by (intro commitBounds_wellFormed)
  with True show ?thesis
    by (simp add: handleReset_def Let_def)
qed

lemma mapPoints_nonNegative:
  assumes "list_all (\<lambda>d. if isFinite (extractPrice d) then js_le (Fin 0) (extractPrice d) else True) sortedArr"
  shows "list_all (\<lambda>p. isFinite (p_price p) \<and> js_le (Fin 0) (p_price p)) (mapPoints sortedArr)"
  using assms by (induction sortedArr) (simp_all add: mapPoints_def)

lemma loadHourly_wellFormed:
  assumes "wellFormed s" "dragging s = None"
    and "list_all (\<lambda>d. if isFinite (extractPrice d) then js_le (Fin 0) (extractPrice d) else True) sortedArr"
  shows "wellFormed (loadHourly sortedArr s)"
proof -
  let ?mapped = "mapPoints sortedArr"
  have pm: "list_all (\<lambda>p. isFinite (p_price p) \<and> js_le (Fin 0) (p_price p)) ?mapped"
    using assms(3) by (rule mapPoints_nonNegative)
  let ?s1 = "s\<lparr>hourlyAll := ?mapped\<rparr>"
  from assms(1) have parts: "boundsInOrder s" "linesInOrder s"
    by (simp_all add: wellFormed_def)
  have p1: "pricesNonNegative ?s1"
    using pm by (simp add: pricesNonNegative_def)
  have w1: "wellFormed ?s1"
    using parts p1 by (simp add: wellFormed_def wellFormed_frame)
  consider "sortedArr = []" | "sortedArr \<noteq> []" "\<not> (\<not> didInitBounds s \<and> ?mapped \<noteq> [])"
    | "sortedArr \<noteq> []" "\<not> didInitBounds s" "?mapped \<noteq> []"
    by blast
  then show ?thesis
  proof cases
    case 1
    with assms(1) show ?thesis by (simp add: loadHourly_def)
  next
    case 2
    then have "loadHourly sortedArr s = ?s1"
      by (auto simp: loadHourly_def Let_def)
    with w1 show ?thesis by simp
  next
    case 3
    then have "last ?mapped \<in> set ?mapped"
      by simp
    with pm have "isFinite (p_price (last ?mapped))" "js_le (Fin 0) (p_price (last ?mapped))"
      unfolding list_all_iff by blast+
    then have ord: "js_le (exact_mul (p_price (last ?mapped)) (Fin 0.95))
                          (exact_mul (p_price (last ?mapped)) (Fin 1.05))"
      by (rule seed_in_order)
    have "wellFormed (commitBounds (exact_mul (p_price (last ?mapped)) (Fin 1.05))
                        (exact_mul (p_price (last ?mapped)) (Fin 0.95)) (?s1\<lparr>didInitBounds := True\<rparr>))"
      using p1 parts(2) assms(2) ord
      by (intro commitBounds_wellFormed) (simp_all add: wellFormed_frame)
    with 3 show ?thesis
      by (simp add: loadHourly_def Let_def)
  qed
qed

lemma hitLine_pair: "hitLine s yScale event [u, l] = Some a \<Longrightarrow> a = u \<or> a = l"
  by (auto simp: hitLine_def split: if_splits)

lemma findLine_pair:
  assumes "pairInOrder s u l"
  shows "findLine s [u, l] UpperBound = Some u" "findLine s [u, l] LowerBound = Some l"
  using assms by (simp_all add: findLine_def pairInOrder_def)

lemma pointerDown_wellFormed:
  assumes "wellFormed s" "lines s = Some [u, l]" "dragging s = None"
  shows "wellFormed (pointerDown yScale chartArea event [u, l] s)"
proof (cases "etype event = MouseDown \<and> inside chartArea event")
  case False
  with assms(1) show ?thesis by (auto simp: pointerDown_def)
next
  case True
  show ?thesis
  proof (cases "hitLine s yScale event [u, l]")
    case None
    with True assms(1) show ?thesis by (simp add: pointerDown_def)
  next
    case (Some a)
    then have "a = u \<or> a = l" by (rule hitLine_pair)
    moreover from assms have "pairInOrder s u l"
      by (simp add: wellFormed_def linesInOrder_iff)
    ultimately have "pairInOrder (s\<lparr>dragging := Some a\<rparr>) u l"
      using assms(3) by (auto simp: pairInOrder_def)
    with assms(1,2) have "wellFormed (s\<lparr>dragging := Some a\<rparr>)"
      by (simp add: wellFormed_def linesInOrder_iff wellFormed_frame)
    with True Some show ?thesis by (simp add: pointerDown_def)
  qed
qed

lemma pointerMove_wellFormed:
  assumes "wellFormed s" "lines s = Some [u, l]" "etype event = MouseMove"
    and "dragging s \<noteq> None \<Longrightarrow> dragCandidate yScale event \<noteq> NaN"
  shows "\<exists>s'. pointerMove yScale event [u, l] s = Inr s' \<and> wellFormed s'"
proof (cases "dragging s")
  case None
  with assms(1) show ?thesis by (simp add: pointerMove_def)
next
  case (Some d)
  from assms(1,2) have pair: "pairInOrder s u l"
    by (simp add: wellFormed_def linesInOrder_iff)
  from assms(4) Some have c: "dragCandidate yScale event \<noteq> NaN" by simp
  from pair have nn: "lvalue (objs s l) \<noteq> NaN" "lvalue (objs s u) \<noteq> NaN"
    using js_le_not_NaN [of "lvalue (objs s l)" "lvalue (objs s u)"]
    by (simp_all add: pairInOrder_def)
  from pair Some have d: "d = u \<or> d = l"
    by (auto simp: pairInOrder_def)
  show ?thesis
  proof (cases "label (objs s d) = UpperBound")
    case True
    with d pair have du: "d = u" by (auto simp: pairInOrder_def)
    let ?s' = "s\<lparr>objs := (objs s)(u := (objs s u)\<lparr>lvalue := js_max (dragCandidate yScale event) (lvalue (objs s l))\<rparr>)\<rparr>"
    have run: "pointerMove yScale event [u, l] s = Inr ?s'"
      using Some True du assms(3) findLine_pair [OF pair]
      by (simp add: pointerMove_def Let_def)
    have "pairInOrder ?s' u l"
      using pair Some du js_le_js_max [OF c nn(1)]
      by (auto simp: pairInOrder_def)
    with assms(1,2) have "wellFormed ?s'"
      by (simp add: wellFormed_def linesInOrder_iff wellFormed_frame)
    with run show ?thesis by blast
  next
    case False
    with d pair have dl: "d = l" by (auto simp: pairInOrder_def)
    let ?s' = "s\<lparr>objs := (objs s)(l := (objs s l)\<lparr>lvalue := js_min (dragCandidate yScale event) (lvalue (objs s u))\<rparr>)\<rparr>"
    have run: "pointerMove yScale event [u, l] s = Inr ?s'"
      using Some False dl assms(3) findLine_pair [OF pair]
      by (simp add: pointerMove_def Let_def)
    have "pairInOrder ?s' u l"
      using pair Some dl js_le_js_min [OF c nn(2)]
      by (auto simp: pairInOrder_def)
    with assms(1,2) have "wellFormed ?s'"
      by (simp add: wellFormed_def linesInOrder_iff wellFormed_frame)
    with run show ?thesis by blast
  qed
qed

lemma pointerUp_wellFormed:
  assumes "wellFormed s" "lines s = Some [u, l]"
  shows "wellFormed (pointerUp event s)"
proof (cases "(etype event = MouseUp \<or> etype event = MouseOut) \<and> dragging s \<noteq> None")
  case False
  with assms(1) show ?thesis by (auto simp: pointerUp_def)
next
  case True
  then obtain d where d: "dragging s = Some d" by auto
  from assms have pair: "pairInOrder s u l" and prices: "pricesNonNegative s"
    by (simp_all add: wellFormed_def linesInOrder_iff)
  let ?s0 = "s\<lparr>dragging := None\<rparr>"
  have p0: "pricesNonNegative ?s0" "dragging ?s0 = None"
    using prices by (simp_all add: wellFormed_frame)
  from pair d consider "d = u" "lvalue (objs s l) = lowerValue s"
    | "d = l" "d \<noteq> u" "lvalue (objs s u) = upperValue s"
    by (auto simp: pairInOrder_def)
  then have "wellFormed (callSetter (onDragEnd (objs s d)) (lvalue (objs s d)) ?s0)"
  proof cases
    case 1
    then have set: "onDragEnd (objs s d) = SetUpperValue"
      using pair by (simp add: pairInOrder_def)
    have "wellFormed (commitBounds (lvalue (objs s u)) (lowerValue ?s0) ?s0)"
    proof (rule commitBounds_wellFormed [OF p0])
      show "js_le (lowerValue ?s0) (lvalue (objs s u))"
        using pair 1 by (simp add: pairInOrder_def)
      show "linesInOrder ?s0" if "lvalue (objs s u) = upperValue ?s0 \<and> lowerValue ?s0 = lowerValue ?s0"
        using that pair 1 assms(2) by (simp add: linesInOrder_iff pairInOrder_def)
    qed
    with set 1 show ?thesis by (simp add: setUpperValue_def)
  next
    case 2
    then have set: "onDragEnd (objs s d) = SetLowerValue"
      using pair by (simp add: pairInOrder_def)
    have "wellFormed (commitBounds (upperValue ?s0) (lvalue (objs s l)) ?s0)"
    proof (rule commitBounds_wellFormed [OF p0])
      show "js_le (lvalue (objs s l)) (upperValue ?s0)"
        using pair 2 by (simp add: pairInOrder_def)
      show "linesInOrder ?s0" if "upperValue ?s0 = upperValue ?s0 \<and> lvalue (objs s l) = lowerValue ?s0"
        using that pair 2 assms(2) by (simp add: linesInOrder_iff pairInOrder_def)
    qed
    with set 2 show ?thesis by (simp add: setLowerValue_def)
  qed
  with True d show ?thesis by (auto simp: pointerUp_def)
qed

lemma pointerDown_lines: "lines (pointerDown yScale chartArea event ls s) = lines s"
  by (simp add: pointerDown_def split: option.splits)

lemma afterEvent_wellFormed:
  assumes "wellFormed s" "undisturbed (Pointer yScale chartArea event) s"
  shows "\<exists>s'. afterEvent yScale chartArea event s = Inr s' \<and> wellFormed s'"
proof -
  from assms(1) obtain u l where ls: "lines s = Some [u, l]"
    by (auto simp: wellFormed_def linesInOrder_iff)
  let ?s1 = "pointerDown yScale chartArea event [u, l] s"
  have "\<exists>s2. pointerMove yScale event [u, l] ?s1 = Inr s2 \<and> wellFormed s2"
  proof (cases "etype event")
    case MouseDown
    with assms(2) have "dragging s = None" by simp
    with assms(1) ls have "wellFormed ?s1" by (rule pointerDown_wellFormed)
    with MouseDown show ?thesis
      by (simp add: pointerMove_def split: option.splits)
  next
    case MouseMove
    then have "?s1 = s" by (simp add: pointerDown_def)
    moreover have "\<exists>s'. pointerMove yScale event [u, l] s = Inr s' \<and> wellFormed s'"
      using assms(1) ls MouseMove
    proof (rule pointerMove_wellFormed)
      show "dragCandidate yScale event \<noteq> NaN" if "dragging s \<noteq> None"
        using that assms(2) MouseMove by simp
    qed
    ultimately show ?thesis by simp
  next
    case MouseUp
    with assms(1) show ?thesis
      by (simp add: pointerDown_def pointerMove_def split: option.splits)
  next
    case MouseOut
    with assms(1) show ?thesis
      by (simp add: pointerDown_def pointerMove_def split: option.splits)
  qed
  then obtain s2 where s2: "pointerMove yScale event [u, l] ?s1 = Inr s2" "wellFormed s2"
    by blast
  from s2(2) obtain u2 l2 where "lines s2 = Some [u2, l2]"
    by (auto simp: wellFormed_def linesInOrder_iff)
  with s2(2) have "wellFormed (pointerUp event s2)"
    by (rule pointerUp_wellFormed)
  with ls s2(1) show ?thesis
    by (simp add: afterEvent_def)
qed

lemma step_wellFormed:
  assumes "wellFormed s" "undisturbed a s"
  shows "\<exists>s'. step a s = Inr s' \<and> wellFormed s'"
proof (cases a)
  case (Pointer yScale chartArea event)
  with assms show ?thesis
    by (simp only: step.simps afterEvent_wellFormed)
next
  case (HourlyLoaded sortedArr)
  with assms show ?thesis
    by (simp add: loadHourly_wellFormed)
next
  case (ApplyUpper n)
  with assms show ?thesis
    by (simp add: typed_wellFormed)
next
  case (ApplyLower n)
  with assms show ?thesis
    by (simp add: typed_wellFormed)
next
  case Reset
  with assms show ?thesis
    by (simp add: handleReset_wellFormed)
qed

lemma run_wellFormed:
  "wellFormed s \<Longrightarrow> undisturbedRun as s \<Longrightarrow> \<exists>s'. run as s = Inr s' \<and> wellFormed s'"
proof (induction as arbitrary: s)
  case Nil
  then show ?case by simp
next
  case (Cons a as)
  from Cons.prems obtain s1 where s1: "step a s = Inr s1" "wellFormed s1"
    using step_wellFormed [of s a] by auto
  with Cons.prems have "undisturbedRun as s1"
    by simp
  with Cons.IH [OF s1(2)] s1(1) show ?case
    by simp
qed

lemma undisturbedRun_prefix: "undisturbedRun (as @ bs) s \<Longrightarrow> undisturbedRun as s"
  by (induction as arbitrary: s) (auto split: sum.splits)

lemma bounds_in_order_when_undisturbed:
  assumes "undisturbedRun (as @ bs) mount"
  shows "\<exists>s. run as mount = Inr s \<and> js_le (lowerValue s) (upperValue s)"
  using run_wellFormed [OF wellFormed_mount undisturbedRun_prefix [OF assms]]
  by (auto simp: wellFormed_def boundsInOrder_def)

end
